theory Spec2Isabelle
  imports Main "HOL-Library.Word" "HOL-Library.AList" "HOL-Library.Multiset"
begin

section \<open>pictureprocess: media deduplication and date-organised placement\<close>

text \<open>
  A shallow embedding of \<^verbatim>\<open>pkg/dateutil/date_parser.go\<close> and
  \<^verbatim>\<open>pkg/imagedup/deduplicator.go\<close>. Go strings are byte strings (\<open>string\<close>),
  \<open>uint64\<close> and \<open>int64\<close> are 64-bit words, Go errors are values of \<open>err\<close>,
  and a panic is the value \<open>Inl\<close> of a result. The operating system, the EXIF and
  image libraries and the scheduler are parameters of the model.
\<close>

subsection \<open>Errors\<close>

datatype err =
    OpenErr            \<comment> \<open>\<^verbatim>\<open>os.Open\<close> / \<^verbatim>\<open>os.OpenFile\<close> failed\<close>
  | ExifErr            \<comment> \<open>\<^verbatim>\<open>exif.Decode\<close> or \<^verbatim>\<open>x.DateTime\<close> failed\<close>
  | NoDateInFilename   \<comment> \<open>\<^verbatim>\<open>fmt.Errorf("no date found in filename")\<close>\<close>
  | StatErr            \<comment> \<open>\<^verbatim>\<open>os.Stat\<close> failed\<close>
  | ParseErr           \<comment> \<open>\<^verbatim>\<open>time.Parse\<close> failed\<close>
  | WalkErr            \<comment> \<open>\<^verbatim>\<open>filepath.Walk\<close> failed\<close>
  | DecodeErr          \<comment> \<open>\<^verbatim>\<open>json.Decoder.Decode\<close> failed with an error other than \<^verbatim>\<open>io.EOF\<close>\<close>
  | WriteErr           \<comment> \<open>\<^verbatim>\<open>json.Encoder.Encode\<close> failed to write\<close>
  | CreateErr          \<comment> \<open>\<^verbatim>\<open>os.Create\<close> failed\<close>
  | CopyErr            \<comment> \<open>\<^verbatim>\<open>io.Copy\<close> failed\<close>
  | NilDeref           \<comment> \<open>panic: method call on a nil \<^verbatim>\<open>os.FileInfo\<close>\<close>
  | MakeChanPanic      \<comment> \<open>panic: \<^verbatim>\<open>make(chan string, n)\<close> with negative \<open>n\<close>\<close>
  | Deadlock           \<comment> \<open>fatal error: all goroutines are asleep\<close>

subsection \<open>Bytes and decimal numbers\<close>

definition isDigitC :: "char \<Rightarrow> bool" where
  "isDigitC c = ((48::nat) \<le> of_char c \<and> (of_char c :: nat) \<le> 57)"

definition digitVal :: "char \<Rightarrow> nat" where
  "digitVal c = of_char c - 48"

definition digitChar :: "nat \<Rightarrow> char" where
  "digitChar d = char_of (48 + d)"

text \<open>\<^verbatim>\<open>isDigit(s, i)\<close> of package time: in range and a decimal digit.\<close>

definition isDigit :: "string \<Rightarrow> nat \<Rightarrow> bool" where
  "isDigit s i = (i < length s \<and> isDigitC (s ! i))"

text \<open>The decimal digits of a natural number, most significant first.\<close>

fun decimal :: "nat \<Rightarrow> string" where
  "decimal n = (if n < 10 then [digitChar n] else decimal (n div 10) @ [digitChar (n mod 10)])"

declare decimal.simps [simp del]

text \<open>
  \<^verbatim>\<open>appendInt(b, x, width)\<close> of package time, and \<^verbatim>\<open>%0{width}d\<close> of package fmt on a
  non-negative number: the decimal digits, padded with zeros on the left to \<open>width\<close>.
\<close>

definition zeroPad :: "nat \<Rightarrow> nat \<Rightarrow> string" where
  "zeroPad width n = replicate (width - length (decimal n)) (CHR ''0'') @ decimal n"

definition appendInt :: "int \<Rightarrow> nat \<Rightarrow> string" where
  "appendInt x width = (if x < 0 then CHR ''-'' # zeroPad width (nat (- x)) else zeroPad width (nat x))"

subsection \<open>Civil dates and \<^verbatim>\<open>Time.Format("2006-01-02")\<close>\<close>

record date =
  year :: int
  month :: nat
  day :: nat

definition formatISO :: "date \<Rightarrow> string" where
  "formatISO d = appendInt (year d) 4 @ ''-'' @ appendInt (int (month d)) 2 @ ''-'' @ appendInt (int (day d)) 2"

definition isLeap :: "int \<Rightarrow> bool" where
  "isLeap y = (y mod 4 = 0 \<and> (y mod 100 \<noteq> 0 \<or> y mod 400 = 0))"

definition daysIn :: "nat \<Rightarrow> int \<Rightarrow> nat" where
  "daysIn m y =
     (if m = 2 then (if isLeap y then 29 else 28)
      else if m = 4 \<or> m = 6 \<or> m = 9 \<or> m = 11 then 30 else 31)"

subsection \<open>\<^verbatim>\<open>time.Parse\<close> on the layouts of \<^verbatim>\<open>dateLayouts\<close>\<close>

text \<open>
  The layout verbs that occur in \<^verbatim>\<open>dateLayouts\<close>: \<^verbatim>\<open>2006\<close> (stdLongYear),
  \<^verbatim>\<open>06\<close> (stdYear), \<^verbatim>\<open>01\<close> (stdZeroMonth), \<^verbatim>\<open>02\<close> (stdZeroDay).
\<close>

datatype std = StdLongYear | StdYear | StdZeroMonth | StdZeroDay

text \<open>
  \<^verbatim>\<open>nextStdChunk\<close>, restricted to those verbs: the literal prefix, the verb and the
  rest of the layout; \<open>None\<close> for the verb when the layout holds no further verb.
\<close>

fun nextStdChunk :: "string \<Rightarrow> string \<times> std option \<times> string" where
  "nextStdChunk [] = ([], None, [])"
| "nextStdChunk (c # cs) =
     (if c = CHR ''2'' \<and> take 3 cs = ''006'' then ([], Some StdLongYear, drop 3 cs)
      else if c = CHR ''0'' \<and> take 1 cs = ''1'' then ([], Some StdZeroMonth, drop 1 cs)
      else if c = CHR ''0'' \<and> take 1 cs = ''2'' then ([], Some StdZeroDay, drop 1 cs)
      else if c = CHR ''0'' \<and> take 1 cs = ''6'' then ([], Some StdYear, drop 1 cs)
      else (case nextStdChunk cs of (p, s, r) \<Rightarrow> (c # p, s, r)))"

lemma nextStdChunk_length: "nextStdChunk l = (p, Some s, r) \<Longrightarrow> length r < length l"
proof (induction l arbitrary: p)
  case Nil
  then show ?case by simp
next
  case (Cons c cs)
  show ?case
  proof (cases "nextStdChunk cs")
    case (fields p' s' r')
    with Cons show ?thesis
      by (auto split: if_splits)
  qed
qed

text \<open>\<^verbatim>\<open>skip(value, prefix)\<close> for a prefix without spaces.\<close>

fun skip :: "string \<Rightarrow> string \<Rightarrow> string option" where
  "skip value [] = Some value"
| "skip [] (p # ps) = None"
| "skip (v # vs) (p # ps) = (if v = p then skip vs ps else None)"

text \<open>\<^verbatim>\<open>leadingInt\<close> followed by the test that nothing remains: digits only.\<close>

fun digitsVal :: "nat \<Rightarrow> string \<Rightarrow> nat option" where
  "digitsVal acc [] = Some acc"
| "digitsVal acc (c # cs) = (if isDigitC c then digitsVal (acc * 10 + digitVal c) cs else None)"

definition atoi :: "string \<Rightarrow> int option" where
  "atoi s =
     (case s of
        c # cs \<Rightarrow>
          (if c = CHR ''-'' then map_option (\<lambda>n. - int n) (digitsVal 0 cs)
           else if c = CHR ''+'' then map_option int (digitsVal 0 cs)
           else map_option int (digitsVal 0 s))
      | [] \<Rightarrow> Some 0)"

text \<open>\<^verbatim>\<open>getnum(s, true)\<close>: exactly two digits.\<close>

definition getnum :: "string \<Rightarrow> (nat \<times> string) option" where
  "getnum s =
     (if \<not> isDigit s 0 then None
      else if \<not> isDigit s 1 then None
      else Some (digitVal (s ! 0) * 10 + digitVal (s ! 1), drop 2 s))"

text \<open>
  The parse state: year, month and day as set so far (month and day start at \<open>-1\<close>
  in the source, here \<open>None\<close>).
\<close>

record pstate =
  pyear :: int
  pmonth :: "nat option"
  pday :: "nat option"

function parseLoop :: "string \<Rightarrow> string \<Rightarrow> pstate \<Rightarrow> pstate option" where
  "parseLoop layout value st =
     (case nextStdChunk layout of
        (prefix, sd, suffix) \<Rightarrow>
          (case skip value prefix of
             None \<Rightarrow> None
           | Some v \<Rightarrow>
               (case sd of
                  None \<Rightarrow> (if v \<noteq> [] then None else Some st)
                | Some StdYear \<Rightarrow>
                    (if length v < 2 then None
                     else (case atoi (take 2 v) of
                             None \<Rightarrow> None
                           | Some y \<Rightarrow>
                               parseLoop suffix (drop 2 v)
                                 (st\<lparr>pyear := (if y \<ge> 69 then y + 1900 else y + 2000)\<rparr>)))
                | Some StdLongYear \<Rightarrow>
                    (if length v < 4 \<or> \<not> isDigit v 0 then None
                     else (case atoi (take 4 v) of
                             None \<Rightarrow> None
                           | Some y \<Rightarrow> parseLoop suffix (drop 4 v) (st\<lparr>pyear := y\<rparr>)))
                | Some StdZeroMonth \<Rightarrow>
                    (case getnum v of
                       None \<Rightarrow> None
                     | Some (m, v') \<Rightarrow>
                         (if m \<le> 0 \<or> 12 < m then None
                          else parseLoop suffix v' (st\<lparr>pmonth := Some m\<rparr>)))
                | Some StdZeroDay \<Rightarrow>
                    (case getnum v of
                       None \<Rightarrow> None
                     | Some (d, v') \<Rightarrow> parseLoop suffix v' (st\<lparr>pday := Some d\<rparr>)))))"
  by pat_completeness auto
termination
  by (relation "measure (\<lambda>(layout, value, st). length layout)")
     (auto dest: nextStdChunk_length [OF sym])

declare parseLoop.simps [simp del]

text \<open>
  \<^verbatim>\<open>time.Parse(layout, value)\<close>: after the loop a missing month or day defaults to 1,
  and the day of the month is validated against the month and the year.
\<close>

definition timeParse :: "string \<Rightarrow> string \<Rightarrow> err + date" where
  "timeParse layout value =
     (case parseLoop layout value \<lparr>pyear = 0, pmonth = None, pday = None\<rparr> of
        None \<Rightarrow> Inl ParseErr
      | Some st \<Rightarrow>
          (let m = (case pmonth st of None \<Rightarrow> 1 | Some m \<Rightarrow> m);
               d = (case pday st of None \<Rightarrow> 1 | Some d \<Rightarrow> d)
           in if d < 1 \<or> d > daysIn m (pyear st) then Inl ParseErr
              else Inr \<lparr>year = pyear st, month = m, day = d\<rparr>))"

subsection \<open>The regular expression of \<^verbatim>\<open>extractDateFromFilename\<close>\<close>

text \<open>
  \<^verbatim>\<open>(\d{4}-\d{2}-\d{2}|\d{2}/\d{2}/\d{4}|\d{8}|\d{6})\<close>: an alternation of sequences of
  single-byte atoms. Go's regexp returns the leftmost match and, at that position, the
  match of the first alternative that matches.
\<close>

datatype atom = D | L char

fun matchSeq :: "atom list \<Rightarrow> string \<Rightarrow> string option" where
  "matchSeq [] s = Some []"
| "matchSeq (a # as) [] = None"
| "matchSeq (a # as) (c # cs) =
     (if (case a of D \<Rightarrow> isDigitC c | L x \<Rightarrow> c = x)
      then map_option ((#) c) (matchSeq as cs) else None)"

fun matchAlt :: "atom list list \<Rightarrow> string \<Rightarrow> string option" where
  "matchAlt [] s = None"
| "matchAlt (alt # alts) s =
     (case matchSeq alt s of Some m \<Rightarrow> Some m | None \<Rightarrow> matchAlt alts s)"

fun findString :: "atom list list \<Rightarrow> string \<Rightarrow> string option" where
  "findString re [] = matchAlt re []"
| "findString re (c # cs) =
     (case matchAlt re (c # cs) of Some m \<Rightarrow> Some m | None \<Rightarrow> findString re cs)"

definition dateRe :: "atom list list" where
  "dateRe =
     [ [D, D, D, D, L (CHR ''-''), D, D, L (CHR ''-''), D, D],
       [D, D, L (CHR ''/''), D, D, L (CHR ''/''), D, D, D, D],
       [D, D, D, D, D, D, D, D],
       [D, D, D, D, D, D] ]"

subsection \<open>\<^verbatim>\<open>date_parser.go\<close>\<close>

definition dateLayouts :: "string list" where
  "dateLayouts = [''2006-01-02'', ''02-01-2006'', ''2006/01/02'', ''02/01/2006'', ''20060102'', ''060102'']"

text \<open>The loop over the layouts: the first layout that parses the match wins.\<close>

fun tryLayouts :: "string list \<Rightarrow> string \<Rightarrow> err + string" where
  "tryLayouts [] m = Inl NoDateInFilename"
| "tryLayouts (layout # ls) m =
     (case timeParse layout m of
        Inr t \<Rightarrow> Inr (formatISO t)
      | Inl e \<Rightarrow> tryLayouts ls m)"

definition extractDateFromFilename :: "string \<Rightarrow> err + string" where
  "extractDateFromFilename filename =
     (case findString dateRe filename of
        Some m \<Rightarrow> tryLayouts dateLayouts m
      | None \<Rightarrow> Inl NoDateInFilename)"

subsection \<open>The file system as the fingerprinting stage reads it\<close>

type_synonym uint64 = "64 word"
type_synonym int64 = "64 word"

text \<open>
  \<^verbatim>\<open>os.FileInfo\<close>: \<^verbatim>\<open>Size()\<close> is an \<open>int64\<close> (read with \<open>sint\<close>, compared with
  \<open><s\<close>), \<^verbatim>\<open>ModTime()\<close> is reduced to its civil date.
\<close>

record fileinfo =
  fiSize :: int64
  fiModTime :: date

text \<open>
  What \<^verbatim>\<open>processImageFile\<close> obtains from \<^verbatim>\<open>os.Open\<close>, \<^verbatim>\<open>image.DecodeConfig\<close>,
  \<^verbatim>\<open>imaging.Decode\<close> and \<^verbatim>\<open>goimagehash.AverageHash\<close>: the first failure, or the hash.
\<close>

datatype imageResult = OpenFailed | NotAnImage | DecodeFailed | HashFailed | Hashed uint64

text \<open>
  One snapshot of the file system: \<open>stat\<close> is \<^verbatim>\<open>os.Stat\<close> (\<open>None\<close> when it returns an
  error), \<open>exifDateTime\<close> is \<^verbatim>\<open>os.Open\<close>, \<^verbatim>\<open>exif.Decode\<close> and \<^verbatim>\<open>x.DateTime()\<close>
  in sequence, \<open>imageHash\<close> the image pipeline above.
\<close>

record fs =
  stat :: "string \<Rightarrow> fileinfo option"
  exifDateTime :: "string \<Rightarrow> err + date"
  imageHash :: "string \<Rightarrow> imageResult"

subsection \<open>\<^verbatim>\<open>ExtractDate\<close> and its three tiers\<close>

definition extractExifDate :: "fs \<Rightarrow> string \<Rightarrow> err + string" where
  "extractExifDate f filePath =
     (case exifDateTime f filePath of
        Inl e \<Rightarrow> Inl e
      | Inr d \<Rightarrow> Inr (formatISO d))"

definition extractFileModTime :: "fs \<Rightarrow> string \<Rightarrow> err + string" where
  "extractFileModTime f filePath =
     (case stat f filePath of
        None \<Rightarrow> Inl StatErr
      | Some info \<Rightarrow> Inr (formatISO (fiModTime info)))"

definition ExtractDate :: "fs \<Rightarrow> string \<Rightarrow> string \<Rightarrow> err + string" where
  "ExtractDate f filePath filename =
     (case extractExifDate f filePath of
        Inr d \<Rightarrow> Inr d
      | Inl e1 \<Rightarrow>
          (case extractDateFromFilename filename of
             Inr d \<Rightarrow> Inr d
           | Inl e2 \<Rightarrow> extractFileModTime f filePath))"

subsection \<open>Paths and extensions (\<^verbatim>\<open>path/filepath\<close>, \<^verbatim>\<open>strings\<close>, Unix separator)\<close>

text \<open>
  \<^verbatim>\<open>filepath.Ext\<close>: scanning from the end up to the last separator, the suffix that
  starts at the first dot met; empty when there is none.
\<close>

fun extScan :: "string \<Rightarrow> string \<Rightarrow> string" where
  "extScan [] acc = []"
| "extScan (c # cs) acc =
     (if c = CHR ''/'' then []
      else if c = CHR ''.'' then c # acc
      else extScan cs (c # acc))"

definition Ext :: "string \<Rightarrow> string" where
  "Ext path = extScan (rev path) []"

text \<open>\<^verbatim>\<open>filepath.Base\<close>: the last element of the path, trailing separators removed.\<close>

definition Base :: "string \<Rightarrow> string" where
  "Base path =
     (if path = [] then ''.''
      else let p = rev (dropWhile (\<lambda>c. c = CHR ''/'') (rev path));
               b = rev (takeWhile (\<lambda>c. c \<noteq> CHR ''/'') (rev p))
           in if b = [] then ''/'' else b)"

text \<open>
  \<^verbatim>\<open>strings.ToLower\<close>. ASCII capitals are lowered. Two runes outside ASCII lower to
  an ASCII letter, U+0130 (bytes C4 B0) to \<open>i\<close> and U+212A (bytes E2 84 AA) to \<open>k\<close>;
  every other byte above 7F is kept, since it stays outside ASCII in Go as well and the
  result is only looked up in tables of ASCII extensions.
\<close>

definition toLowerC :: "char \<Rightarrow> char" where
  "toLowerC c = (if (65::nat) \<le> of_char c \<and> (of_char c :: nat) \<le> 90 then char_of (of_char c + (32::nat)) else c)"

fun ToLower :: "string \<Rightarrow> string" where
  "ToLower [] = []"
| "ToLower [c] = [toLowerC c]"
| "ToLower [c, d] =
     (if c = char_of (0xC4::nat) \<and> d = char_of (0xB0::nat) then ''i''
      else toLowerC c # ToLower [d])"
| "ToLower (c # d # e # cs) =
     (if c = char_of (0xC4::nat) \<and> d = char_of (0xB0::nat) then CHR ''i'' # ToLower (e # cs)
      else if c = char_of (0xE2::nat) \<and> d = char_of (0x84::nat) \<and> e = char_of (0xAA::nat)
      then CHR ''k'' # ToLower cs
      else toLowerC c # ToLower (d # e # cs))"

subsection \<open>Media classes\<close>

definition SupportedImageFormats :: "string list" where
  "SupportedImageFormats = [''.jpg'', ''.jpeg'', ''.png'']"

definition SupportedRawFormats :: "string list" where
  "SupportedRawFormats =
     [''.nef'', ''.cr2'', ''.cr3'', ''.arw'', ''.rw2'', ''.orf'', ''.raf'', ''.pef'', ''.dng'',
      ''.raw'', ''.kdc'', ''.sr2'', ''.mos'', ''.mrw'']"

definition SupportedVideoFormats :: "string list" where
  "SupportedVideoFormats = [''.avi'', ''.mp4'', ''.mkv'', ''.mov'']"

datatype cls = Image | Raw | Video | Unsupported

text \<open>
  The chain \<^verbatim>\<open>if SupportedImageFormats[ext] ... else if SupportedRawFormats[ext] ...\<close>
  on \<^verbatim>\<open>ext := strings.ToLower(filepath.Ext(file))\<close>, as the worker, \<^verbatim>\<open>processFile\<close>
  and the copied counts all write it.
\<close>

definition classOf :: "string \<Rightarrow> cls" where
  "classOf file =
     (let ext = ToLower (Ext file)
      in if ext \<in> set SupportedImageFormats then Image
         else if ext \<in> set SupportedRawFormats then Raw
         else if ext \<in> set SupportedVideoFormats then Video
         else Unsupported)"

subsection \<open>Fingerprinting one file\<close>

record imageInfo =
  hash :: uint64
  filename :: string
  isoDate :: string

text \<open>
  A call reads the file system several times, and the file system may change in
  between: a \<open>timeline\<close> gives the snapshot each step of one call sees. Step 0 is the
  first \<^verbatim>\<open>os.Stat\<close> (for an image, the decoding), step 1 is \<^verbatim>\<open>ExtractDate\<close>, step 2
  is the fallback \<^verbatim>\<open>extractFileCreationDate\<close>. Each function returns the list of
  records it sends on \<^verbatim>\<open>resultChan\<close>: none or one.
\<close>

type_synonym timeline = "nat \<Rightarrow> fs"

definition extractFileCreationDate :: "fs \<Rightarrow> string \<Rightarrow> err + string" where
  "extractFileCreationDate f filePath =
     (case stat f filePath of
        None \<Rightarrow> Inl StatErr
      | Some info \<Rightarrow> Inr (formatISO (fiModTime info)))"

definition processImageFile :: "timeline \<Rightarrow> string \<Rightarrow> imageInfo list" where
  "processImageFile tline filePath =
     (case imageHash (tline 0) filePath of
        OpenFailed \<Rightarrow> []
      | NotAnImage \<Rightarrow> []
      | DecodeFailed \<Rightarrow> []
      | HashFailed \<Rightarrow> []
      | Hashed h \<Rightarrow>
          (case ExtractDate (tline 1) filePath (Base filePath) of
             Inl e \<Rightarrow> []
           | Inr d \<Rightarrow> [\<lparr>hash = h, filename = filePath, isoDate = d\<rparr>]))"

definition processRawFile :: "timeline \<Rightarrow> string \<Rightarrow> imageInfo list" where
  "processRawFile tline filePath =
     (case stat (tline 0) filePath of
        None \<Rightarrow> []
      | Some info \<Rightarrow>
          (let fileSize = fiSize info;
               h = fileSize;
               d = (case ExtractDate (tline 1) filePath (Base filePath) of
                      Inr d \<Rightarrow> d
                    | Inl e \<Rightarrow>
                        (case extractFileCreationDate (tline 2) filePath of
                           Inr dateTime \<Rightarrow> dateTime
                         | Inl e' \<Rightarrow> []))
           in [\<lparr>hash = h, filename = filePath, isoDate = d\<rparr>]))"

definition processVideoFile :: "timeline \<Rightarrow> string \<Rightarrow> imageInfo list" where
  "processVideoFile tline filePath =
     (case stat (tline 0) filePath of
        None \<Rightarrow> []
      | Some info \<Rightarrow>
          (let fileSize = fiSize info;
               h = fileSize;
               d = (case ExtractDate (tline 1) filePath (Base filePath) of
                      Inr d \<Rightarrow> d
                    | Inl e \<Rightarrow>
                        (case extractFileCreationDate (tline 2) filePath of
                           Inr dateTime \<Rightarrow> dateTime
                         | Inl e' \<Rightarrow> []))
           in [\<lparr>hash = h, filename = filePath, isoDate = d\<rparr>]))"

subsection \<open>\<^verbatim>\<open>filterUniqueFiles\<close>\<close>

text \<open>
  The two Go maps \<^verbatim>\<open>unique\<close> and \<^verbatim>\<open>hashSizes\<close> are association lists with distinct
  keys; a missing key of \<^verbatim>\<open>hashSizes\<close> reads as 0. \<^verbatim>\<open>info, _ := os.Stat(...)\<close>
  drops the error, so \<^verbatim>\<open>info.Size()\<close> panics when the file cannot be stat-ed.
\<close>

type_synonym ustate = "(uint64 \<times> imageInfo) list \<times> (uint64 \<times> int64) list"

definition filterStep :: "fs \<Rightarrow> imageInfo \<Rightarrow> ustate \<Rightarrow> err + ustate" where
  "filterStep f fileInfo st =
     (case st of
        (unique, hashSizes) \<Rightarrow>
          (case stat f (filename fileInfo) of
             None \<Rightarrow> Inl NilDeref
           | Some info \<Rightarrow>
               (let fileSize = fiSize info
                in if map_of unique (hash fileInfo) = None
                      \<or> (case map_of hashSizes (hash fileInfo) of None \<Rightarrow> 0 | Some s \<Rightarrow> s) <s fileSize
                   then Inr (AList.update (hash fileInfo) fileInfo unique,
                             AList.update (hash fileInfo) fileSize hashSizes)
                   else Inr (unique, hashSizes))))"

fun filterLoop :: "fs \<Rightarrow> imageInfo list \<Rightarrow> ustate \<Rightarrow> err + ustate" where
  "filterLoop f [] st = Inr st"
| "filterLoop f (fileInfo # files) st =
     (case filterStep f fileInfo st of
        Inl e \<Rightarrow> Inl e
      | Inr st' \<Rightarrow> filterLoop f files st')"

definition filterUniqueFiles :: "fs \<Rightarrow> imageInfo list \<Rightarrow> err + (uint64 \<times> imageInfo) list" where
  "filterUniqueFiles f files =
     (case filterLoop f files ([], []) of
        Inl e \<Rightarrow> Inl e
      | Inr (unique, hashSizes) \<Rightarrow> Inr unique)"

subsection \<open>The destination: the operating system during placement\<close>

text \<open>
  What an \<^verbatim>\<open>index.json\<close> holds, as \<^verbatim>\<open>json.Decoder.Decode\<close> into a
  \<^verbatim>\<open>map[string]string\<close> reads it: \<open>Blank\<close> is an empty or all-whitespace file
  (\<^verbatim>\<open>Decode\<close> returns \<^verbatim>\<open>io.EOF\<close>), \<open>Object m\<close> a file whose first JSON value decodes
  to the map \<open>m\<close>, \<open>Malformed raw\<close> any other bytes (\<^verbatim>\<open>Decode\<close> returns another error).
  \<^verbatim>\<open>Encode\<close> writes an \<open>Object\<close>.
\<close>

datatype content = Blank | Object "string \<rightharpoonup> string" | Malformed string

text \<open>
  The outcome of each system call of the placement loop: which succeed, what
  \<^verbatim>\<open>filepath.Rel\<close> and \<^verbatim>\<open>filepath.Join\<close> return, and what a failed write leaves in a
  file that was just truncated. \<^verbatim>\<open>f.Seek\<close> and \<^verbatim>\<open>f.Truncate\<close> on the file just opened
  read-write are taken to succeed; the source ignores their results.
\<close>

record osEnv =
  mkdirAllOk :: "string \<Rightarrow> bool"
  pathRel :: "string \<Rightarrow> string \<Rightarrow> string option"
  pathJoin :: "string \<Rightarrow> string \<Rightarrow> string"
  openOk :: "string \<Rightarrow> bool"
  createOk :: "string \<Rightarrow> bool"
  ioCopyOk :: "string \<Rightarrow> string \<Rightarrow> bool"
  openFileOk :: "string \<Rightarrow> bool"
  encodeOk :: "string \<Rightarrow> bool"
  tornWrite :: "string \<Rightarrow> content"

definition copyFile :: "osEnv \<Rightarrow> string \<Rightarrow> string \<Rightarrow> err option" where
  "copyFile os src dst =
     (if \<not> openOk os src then Some OpenErr
      else if \<not> createOk os dst then Some CreateErr
      else if \<not> ioCopyOk os src dst then Some CopyErr
      else None)"

subsection \<open>\<^verbatim>\<open>writeIndexJSON\<close>\<close>

text \<open>
  \<^verbatim>\<open>decoder.Decode(&existingData)\<close> with the test \<^verbatim>\<open>err != nil && err != io.EOF\<close>:
  the map read, empty on \<^verbatim>\<open>io.EOF\<close>, or the error.
\<close>

definition decodeExisting :: "content \<Rightarrow> err + (string \<rightharpoonup> string)" where
  "decodeExisting c =
     (case c of
        Blank \<Rightarrow> Inr Map.empty
      | Object m \<Rightarrow> Inr m
      | Malformed raw \<Rightarrow> Inl DecodeErr)"

text \<open>
  The ledger files are a map from path to content (\<open>None\<close>: no such file). The result
  is the error returned (\<open>None\<close> for \<^verbatim>\<open>nil\<close>) and the files afterwards. \<^verbatim>\<open>O_CREATE\<close>
  makes a missing file, empty; the loop over \<^verbatim>\<open>mapping\<close> is \<open>existingData ++ mapping\<close>.
\<close>

definition writeIndexJSON ::
  "osEnv \<Rightarrow> (string \<rightharpoonup> content) \<Rightarrow> string \<Rightarrow> (string \<rightharpoonup> string) \<Rightarrow> err option \<times> (string \<rightharpoonup> content)" where
  "writeIndexJSON os files destPath mapping =
     (let indexFile = pathJoin os destPath ''index.json''
      in if \<not> openFileOk os indexFile then (Some OpenErr, files)
         else
           (let cur = (case files indexFile of None \<Rightarrow> Blank | Some c \<Rightarrow> c);
                files1 = files(indexFile \<mapsto> cur)
            in case decodeExisting cur of
                 Inl e \<Rightarrow> (Some e, files1)
               | Inr existingData \<Rightarrow>
                   (let updated = existingData ++ mapping
                    in if encodeOk os indexFile
                       then (None, files1(indexFile \<mapsto> Object updated))
                       else (Some WriteErr, files1(indexFile \<mapsto> tornWrite os indexFile)))))"

subsection \<open>\<^verbatim>\<open>ProcessFiles\<close>: the counters\<close>

record counters =
  imageCount :: uint64
  rawCount :: uint64
  videoCount :: uint64
  imageDuplicates :: uint64
  rawDuplicates :: uint64
  videoDuplicates :: uint64
  imageCopied :: uint64
  rawCopied :: uint64
  videoCopied :: uint64
  processedFiles :: uint64

definition zeroCounters :: counters where
  "zeroCounters =
     \<lparr>imageCount = 0, rawCount = 0, videoCount = 0,
      imageDuplicates = 0, rawDuplicates = 0, videoDuplicates = 0,
      imageCopied = 0, rawCopied = 0, videoCopied = 0, processedFiles = 0\<rparr>"

subsection \<open>\<^verbatim>\<open>ProcessFiles\<close>: the workers\<close>

text \<open>
  The body of the worker's loop for one file: the class counter is incremented before
  the file is processed, \<^verbatim>\<open>processedFiles\<close> after. The increments are atomic and
  commute, so the counters do not depend on how the workers interleave; the order in
  which the records reach the reducer does, and is a parameter of the run (below).
  The progress line is not modelled.
\<close>

definition workOne :: "(string \<Rightarrow> timeline) \<Rightarrow> string \<Rightarrow> counters \<times> imageInfo list \<Rightarrow> counters \<times> imageInfo list" where
  "workOne tlines file st =
     (case st of
        (cnt, resultChan) \<Rightarrow>
          (let (cnt1, sent) =
                 (case classOf file of
                    Image \<Rightarrow> (cnt\<lparr>imageCount := imageCount cnt + 1\<rparr>, processImageFile (tlines file) file)
                  | Raw \<Rightarrow> (cnt\<lparr>rawCount := rawCount cnt + 1\<rparr>, processRawFile (tlines file) file)
                  | Video \<Rightarrow> (cnt\<lparr>videoCount := videoCount cnt + 1\<rparr>, processVideoFile (tlines file) file)
                  | Unsupported \<Rightarrow> (cnt, []))
           in (cnt1\<lparr>processedFiles := processedFiles cnt1 + 1\<rparr>, resultChan @ sent)))"

fun workAll :: "(string \<Rightarrow> timeline) \<Rightarrow> string list \<Rightarrow> counters \<times> imageInfo list \<Rightarrow> counters \<times> imageInfo list" where
  "workAll tlines [] st = st"
| "workAll tlines (file # fileList) st = workAll tlines fileList (workOne tlines file st)"

subsection \<open>\<^verbatim>\<open>ProcessFiles\<close>: the placement loop\<close>

text \<open>
  One call of \<^verbatim>\<open>copyFile\<close> made by the loop: the date directory it was made for, the
  file name allocated, the source, the destination path, and whether it succeeded.
\<close>

record copyCall =
  forDate :: string
  newName :: string
  srcFile :: string
  dstFile :: string
  succeeded :: bool

text \<open>
  The state of the loop: the counters, \<^verbatim>\<open>dateCounters\<close> (a missing key reads as 0),
  the ledger files, and the calls of \<^verbatim>\<open>copyFile\<close> so far, in order.
\<close>

record place =
  cnt :: counters
  dateCounters :: "string \<Rightarrow> uint64"
  ledgers :: "string \<rightharpoonup> content"
  copies :: "copyCall list"

text \<open>
  The body of the loop for one unique record. \<^verbatim>\<open>fmt.Sprintf("%03d%s", n, ext)\<close> on a
  \<open>uint64\<close> is \<open>zeroPad 3 (unat n) @ ext\<close>. Every \<^verbatim>\<open>continue\<close> leaves the state as it
  is at that point; log lines are not modelled.
\<close>

definition placeOne :: "osEnv \<Rightarrow> string \<Rightarrow> string \<Rightarrow> imageInfo \<Rightarrow> place \<Rightarrow> place" where
  "placeOne os srcDir destDir fileInfo st =
     (let dateStr = isoDate fileInfo;
          destPath = pathJoin os destDir dateStr
      in if \<not> mkdirAllOk os destPath then st
         else
           (case pathRel os srcDir (filename fileInfo) of
              None \<Rightarrow> st
            | Some relPath \<Rightarrow>
                (let n = dateCounters st dateStr + 1;
                     st1 = st\<lparr>dateCounters := (dateCounters st)(dateStr := n)\<rparr>;
                     newFileName = zeroPad 3 (unat n) @ Ext (filename fileInfo);
                     destFile = pathJoin os destPath newFileName;
                     call = \<lparr>forDate = dateStr, newName = newFileName, srcFile = filename fileInfo,
                             dstFile = destFile, succeeded = False\<rparr>
                 in case copyFile os (filename fileInfo) destFile of
                      Some e \<Rightarrow> st1\<lparr>copies := copies st1 @ [call]\<rparr>
                    | None \<Rightarrow>
                        (let st2 = st1\<lparr>copies := copies st1 @ [call\<lparr>succeeded := True\<rparr>]\<rparr>
                         in case writeIndexJSON os (ledgers st2) destPath [relPath \<mapsto> newFileName] of
                              (Some e, files') \<Rightarrow> st2\<lparr>ledgers := files'\<rparr>
                            | (None, files') \<Rightarrow>
                                (let st3 = st2\<lparr>ledgers := files'\<rparr>; c = cnt st3
                                 in case classOf (filename fileInfo) of
                                      Image \<Rightarrow> st3\<lparr>cnt := c\<lparr>imageCopied := imageCopied c + 1\<rparr>\<rparr>
                                    | Raw \<Rightarrow> st3\<lparr>cnt := c\<lparr>rawCopied := rawCopied c + 1\<rparr>\<rparr>
                                    | Video \<Rightarrow> st3\<lparr>cnt := c\<lparr>videoCopied := videoCopied c + 1\<rparr>\<rparr>
                                    | Unsupported \<Rightarrow> st3)))))"

text \<open>
  The loop. The system may answer differently from one iteration to the next:
  \<open>osFor r\<close> is the system as it answers while the record \<open>r\<close> is placed.
\<close>

fun placeAll :: "(imageInfo \<Rightarrow> osEnv) \<Rightarrow> string \<Rightarrow> string \<Rightarrow> imageInfo list \<Rightarrow> place \<Rightarrow> place" where
  "placeAll osFor srcDir destDir [] st = st"
| "placeAll osFor srcDir destDir (fileInfo # rest) st =
     placeAll osFor srcDir destDir rest (placeOne (osFor fileInfo) srcDir destDir fileInfo st)"

subsection \<open>\<^verbatim>\<open>ProcessFiles\<close>\<close>

text \<open>
  Everything outside the program that a run depends on: the result of
  \<^verbatim>\<open>filepath.Walk\<close>, the file system each file's processing sees, the order in which the
  workers' records arrive on \<^verbatim>\<open>resultChan\<close>, the file system the reducer stats, the order
  in which \<^verbatim>\<open>range\<close> visits the map \<^verbatim>\<open>uniqueFiles\<close>, the system during each placement, and
  the ledger files found in the destination. A scheduler only permutes: the theorems
  that need it assume that \<open>arrival\<close> and \<open>rangeOrder\<close> return permutations.
\<close>

record world =
  walk :: "string \<Rightarrow> err + string list"
  timelineOf :: "string \<Rightarrow> timeline"
  arrival :: "imageInfo list \<Rightarrow> imageInfo list"
  reduceFs :: fs
  rangeOrder :: "(uint64 \<times> imageInfo) list \<Rightarrow> (uint64 \<times> imageInfo) list"
  osFor :: "imageInfo \<Rightarrow> osEnv"
  ledgers0 :: "string \<rightharpoonup> content"

text \<open>
  What a run that returns \<^verbatim>\<open>nil\<close> has done: found no file (nothing but a message is
  printed, no summary), or printed the summary of the counters in the final state.
\<close>

datatype report = NoFiles | Finished place

text \<open>
  With a negative \<^verbatim>\<open>numWorkers\<close>, \<^verbatim>\<open>make(chan string, numWorkers)\<close> panics; with 0 no
  worker is started and the first send on the unbuffered \<^verbatim>\<open>fileChan\<close> blocks for ever.
\<close>

definition ProcessFiles :: "world \<Rightarrow> string \<Rightarrow> string \<Rightarrow> int \<Rightarrow> err + report" where
  "ProcessFiles w srcDir destDir numWorkers =
     (case walk w srcDir of
        Inl e \<Rightarrow> Inl e
      | Inr fileList \<Rightarrow>
          (if fileList = [] then Inr NoFiles
           else if numWorkers < 0 then Inl MakeChanPanic
           else if numWorkers = 0 then Inl Deadlock
           else
             (case workAll (timelineOf w) fileList (zeroCounters, []) of
                (counted, resultChan) \<Rightarrow>
                  (case filterUniqueFiles (reduceFs w) (arrival w resultChan) of
                     Inl e \<Rightarrow> Inl e
                   | Inr uniqueFiles \<Rightarrow>
                       (let st = placeAll (osFor w) srcDir destDir (map snd (rangeOrder w uniqueFiles))
                                   \<lparr>cnt = counted, dateCounters = (\<lambda>d. 0), ledgers = ledgers0 w, copies = []\<rparr>;
                            c = cnt st
                        in Inr (Finished
                             (st\<lparr>cnt := c\<lparr>imageDuplicates := imageCount c - imageCopied c,
                                          rawDuplicates := rawCount c - rawCopied c,
                                          videoDuplicates := videoCount c - videoCopied c\<rparr>\<rparr>)))))))"

subsection \<open>Specification predicates for the reducer\<close>

text \<open>
  The size the reducer reads for a record, as a signed number: \<^verbatim>\<open>info.Size()\<close> of the
  record's file (0 where the file cannot be stat-ed, which the reducer never reaches
  without a panic).
\<close>

definition sizeOf :: "fs \<Rightarrow> imageInfo \<Rightarrow> int" where
  "sizeOf f r = (case stat f (filename r) of None \<Rightarrow> 0 | Some info \<Rightarrow> sint (fiSize info))"

text \<open>
  \<open>firstLargest f files h r\<close>: \<open>r\<close> occurs in \<open>files\<close> with fingerprint \<open>h\<close>, every
  record with that fingerprint that arrived before it is strictly smaller, and none that
  arrived after it is larger. So \<open>r\<close> is the first arrival among the largest.
\<close>

definition firstLargest :: "fs \<Rightarrow> imageInfo list \<Rightarrow> uint64 \<Rightarrow> imageInfo \<Rightarrow> bool" where
  "firstLargest f files h r \<longleftrightarrow> (\<exists>ys zs. files = ys @ r # zs \<and> hash r = h
      \<and> (\<forall>y\<in>set ys. hash y = h \<longrightarrow> sizeOf f y < sizeOf f r)
      \<and> (\<forall>z\<in>set zs. hash z = h \<longrightarrow> sizeOf f z \<le> sizeOf f r))"

text \<open>The loop invariant of \<^verbatim>\<open>filterUniqueFiles\<close> after the records \<open>xs\<close>.\<close>

definition uniqueInv :: "fs \<Rightarrow> imageInfo list \<Rightarrow> ustate \<Rightarrow> bool" where
  "uniqueInv f xs st \<longleftrightarrow> (case st of (u, hs) \<Rightarrow>
     (\<forall>r\<in>set xs. stat f (filename r) \<noteq> None) \<and> distinct (map fst u) \<and>
     (\<forall>h. (h \<notin> hash ` set xs \<longrightarrow> map_of u h = None) \<and>
          (h \<in> hash ` set xs \<longrightarrow> (\<exists>r. map_of u h = Some r \<and> firstLargest f xs h r
              \<and> (\<exists>info. stat f (filename r) = Some info \<and> map_of hs h = Some (fiSize info))))))"

subsection \<open>Specification predicates for the placement\<close>

text \<open>The calls of \<^verbatim>\<open>copyFile\<close> made for one date directory, and those that succeeded.\<close>

definition allocatedIn :: "string \<Rightarrow> copyCall list \<Rightarrow> copyCall list" where
  "allocatedIn d cs = filter (\<lambda>c. forDate c = d) cs"

definition placedIn :: "string \<Rightarrow> copyCall list \<Rightarrow> copyCall list" where
  "placedIn d cs = filter succeeded (allocatedIn d cs)"

text \<open>
  \<open>numbered cs\<close>: the names of the calls \<open>cs\<close> are 001, 002, ... in this order, each
  followed by the extension of its source (the number is taken modulo \<open>2 ^ 64\<close>, as the
  counter is a \<open>uint64\<close>).
\<close>

definition numbered :: "copyCall list \<Rightarrow> bool" where
  "numbered cs =
     (map newName cs =
        map2 (\<lambda>k c. zeroPad 3 (k mod 2 ^ 64) @ Ext (srcFile c)) [1 ..< Suc (length cs)] cs)"

text \<open>The number of files, and of records, of one class.\<close>

definition countCls :: "cls \<Rightarrow> string list \<Rightarrow> nat" where
  "countCls c files = length (filter (\<lambda>f. classOf f = c) files)"

definition recCls :: "cls \<Rightarrow> imageInfo list \<Rightarrow> nat" where
  "recCls c rs = length (filter (\<lambda>r. classOf (filename r) = c) rs)"

text \<open>The counter of files seen, and of files copied, of one class.\<close>

definition seenOf :: "cls \<Rightarrow> counters \<Rightarrow> uint64" where
  "seenOf k c = (case k of Image \<Rightarrow> imageCount c | Raw \<Rightarrow> rawCount c | Video \<Rightarrow> videoCount c | Unsupported \<Rightarrow> 0)"

definition copiedOf :: "cls \<Rightarrow> counters \<Rightarrow> uint64" where
  "copiedOf k c = (case k of Image \<Rightarrow> imageCopied c | Raw \<Rightarrow> rawCopied c | Video \<Rightarrow> videoCopied c | Unsupported \<Rightarrow> 0)"

text \<open>
  The invariants of the placement loop: the counter of a date directory is the number of
  calls of \<^verbatim>\<open>copyFile\<close> made for it and these calls are numbered; every name allocated
  is a number followed by the extension of its source.
\<close>

definition allocInv :: "place \<Rightarrow> bool" where
  "allocInv st \<longleftrightarrow>
     (\<forall>d. dateCounters st d = of_nat (length (allocatedIn d (copies st)))
          \<and> numbered (allocatedIn d (copies st)))"

definition nameInv :: "place \<Rightarrow> bool" where
  "nameInv st \<longleftrightarrow>
     (\<forall>c\<in>set (copies st). \<exists>k. newName c = zeroPad 3 k @ Ext (srcFile c))"

subsection \<open>Example inputs\<close>

definition exampleSizes :: fs where
  "exampleSizes =
     \<lparr>stat = (\<lambda>p. if p = ''/s/a.jpg'' then Some \<lparr>fiSize = 10, fiModTime = \<lparr>year = 2020, month = 5, day = 17\<rparr>\<rparr>
                   else if p = ''/s/b.jpg'' \<or> p = ''/s/c.jpg'' then Some \<lparr>fiSize = 30, fiModTime = \<lparr>year = 2020, month = 5, day = 17\<rparr>\<rparr>
                   else None),
      exifDateTime = (\<lambda>p. Inl ExifErr),
      imageHash = (\<lambda>p. NotAnImage)\<rparr>"

definition exampleRecords :: "imageInfo list" where
  "exampleRecords =
     [\<lparr>hash = 7, filename = ''/s/a.jpg'', isoDate = ''2020-05-17''\<rparr>,
      \<lparr>hash = 7, filename = ''/s/b.jpg'', isoDate = ''2020-05-17''\<rparr>,
      \<lparr>hash = 7, filename = ''/s/c.jpg'', isoDate = ''2020-05-17''\<rparr>]"


definition exifDated :: fs where
  "exifDated =
     \<lparr>stat = (\<lambda>p. if p = ''/s/IMG_20200101.jpg'' \<or> p = ''/s/trip_20200101.mp4''
                   then Some \<lparr>fiSize = 4096, fiModTime = \<lparr>year = 2023, month = 11, day = 5\<rparr>\<rparr>
                   else None),
      exifDateTime = (\<lambda>p. if p = ''/s/IMG_20200101.jpg''
                           then Inr \<lparr>year = 2021, month = 6, day = 1\<rparr> else Inl ExifErr),
      imageHash = (\<lambda>p. if p = ''/s/IMG_20200101.jpg'' then Hashed 255 else NotAnImage)\<rparr>"

text \<open>
  A file that is there when \<^verbatim>\<open>os.Stat\<close> first reads it and gone (or unreadable) from
  then on.
\<close>

definition vanishing :: timeline where
  "vanishing k =
     (if k = 0
      then \<lparr>stat = (\<lambda>p. if p = ''/s/a.nef'' \<or> p = ''/s/a.mov''
                         then Some \<lparr>fiSize = 1000, fiModTime = \<lparr>year = 2020, month = 5, day = 17\<rparr>\<rparr>
                         else None),
            exifDateTime = (\<lambda>p. Inl ExifErr),
            imageHash = (\<lambda>p. NotAnImage)\<rparr>
      else \<lparr>stat = (\<lambda>p. None), exifDateTime = (\<lambda>p. Inl OpenErr), imageHash = (\<lambda>p. OpenFailed)\<rparr>)"

text \<open>A system in which every call succeeds, with plain path operations.\<close>

definition plainOS :: osEnv where
  "plainOS =
     \<lparr>mkdirAllOk = (\<lambda>p. True),
      pathRel = (\<lambda>base p. if take (length base + 1) p = base @ ''/'' then Some (drop (length base + 1) p) else None),
      pathJoin = (\<lambda>a b. a @ ''/'' @ b),
      openOk = (\<lambda>p. True),
      createOk = (\<lambda>p. True),
      ioCopyOk = (\<lambda>s d. True),
      openFileOk = (\<lambda>p. True),
      encodeOk = (\<lambda>p. True),
      tornWrite = (\<lambda>p. Blank)\<rparr>"


text \<open>A video and a raw file of the same size, with no date but the modification time.\<close>

definition equalSizes :: fs where
  "equalSizes =
     \<lparr>stat = (\<lambda>p. if p = ''/s/b.mp4'' \<or> p = ''/s/c.nef''
                   then Some \<lparr>fiSize = 30, fiModTime = \<lparr>year = 2020, month = 5, day = 17\<rparr>\<rparr>
                   else None),
      exifDateTime = (\<lambda>p. Inl ExifErr),
      imageHash = (\<lambda>p. NotAnImage)\<rparr>"

text \<open>
  Two videos of different sizes with the same modification date; the copy of the first
  one fails.
\<close>

definition twoVideos :: fs where
  "twoVideos =
     \<lparr>stat = (\<lambda>p. if p = ''/s/a.mov'' then Some \<lparr>fiSize = 10, fiModTime = \<lparr>year = 2020, month = 5, day = 17\<rparr>\<rparr>
                   else if p = ''/s/b.mov'' then Some \<lparr>fiSize = 20, fiModTime = \<lparr>year = 2020, month = 5, day = 17\<rparr>\<rparr>
                   else None),
      exifDateTime = (\<lambda>p. Inl ExifErr),
      imageHash = (\<lambda>p. NotAnImage)\<rparr>"

definition copyFails :: world where
  "copyFails =
     \<lparr>walk = (\<lambda>d. if d = ''/s'' then Inr [''/s/a.mov'', ''/s/b.mov'']
                   else if d = ''/empty'' then Inr [] else Inl WalkErr),
      timelineOf = (\<lambda>p k. twoVideos),
      arrival = (\<lambda>rs. rs),
      reduceFs = twoVideos,
      rangeOrder = (\<lambda>u. u),
      osFor = (\<lambda>r. plainOS\<lparr>ioCopyOk := (\<lambda>s d. s \<noteq> ''/s/a.mov'')\<rparr>),
      ledgers0 = Map.empty\<rparr>"

text \<open>One image whose extension is written in capitals.\<close>

definition upperCase :: world where
  "upperCase =
     \<lparr>walk = (\<lambda>d. if d = ''/s'' then Inr [''/s/IMG_20200101.JPG''] else Inl WalkErr),
      timelineOf = (\<lambda>p k.
         \<lparr>stat = (\<lambda>p. if p = ''/s/IMG_20200101.JPG''
                       then Some \<lparr>fiSize = 4096, fiModTime = \<lparr>year = 2023, month = 11, day = 5\<rparr>\<rparr>
                       else None),
          exifDateTime = (\<lambda>p. if p = ''/s/IMG_20200101.JPG''
                               then Inr \<lparr>year = 2021, month = 6, day = 1\<rparr> else Inl ExifErr),
          imageHash = (\<lambda>p. if p = ''/s/IMG_20200101.JPG'' then Hashed 255 else NotAnImage)\<rparr>),
      arrival = (\<lambda>rs. rs),
      reduceFs =
         \<lparr>stat = (\<lambda>p. if p = ''/s/IMG_20200101.JPG''
                       then Some \<lparr>fiSize = 4096, fiModTime = \<lparr>year = 2023, month = 11, day = 5\<rparr>\<rparr>
                       else None),
          exifDateTime = (\<lambda>p. Inl ExifErr),
          imageHash = (\<lambda>p. NotAnImage)\<rparr>,
      rangeOrder = (\<lambda>u. u),
      osFor = (\<lambda>r. plainOS),
      ledgers0 = Map.empty\<rparr>"

section \<open>Properties\<close>

subsection \<open>The reducer keeps the first of the largest files\<close>

lemma filterLoop_snoc:
  "filterLoop f (xs @ [x]) st =
     (case filterLoop f xs st of Inl e \<Rightarrow> Inl e | Inr st' \<Rightarrow> filterStep f x st')"
  by (induction xs arbitrary: st) (auto split: sum.splits)

lemma filterStep_Inr:
  assumes "filterStep f x (u0, hs0) = Inr (u, hs)"
  shows "\<exists>info. stat f (filename x) = Some info \<and>
    (if map_of u0 (hash x) = None \<or> (case map_of hs0 (hash x) of None \<Rightarrow> 0 | Some s \<Rightarrow> s) <s fiSize info
     then u = AList.update (hash x) x u0 \<and> hs = AList.update (hash x) (fiSize info) hs0
     else u = u0 \<and> hs = hs0)"
  using assms by (auto simp: filterStep_def Let_def split: option.splits if_splits)

lemma firstLargest_keep:
  assumes "firstLargest f xs h r" "hash x = h \<longrightarrow> sizeOf f x \<le> sizeOf f r"
  shows "firstLargest f (xs @ [x]) h r"
proof -
  from assms(1) obtain ys zs where d: "xs = ys @ r # zs" "hash r = h"
    "\<forall>y\<in>set ys. hash y = h \<longrightarrow> sizeOf f y < sizeOf f r"
    "\<forall>z\<in>set zs. hash z = h \<longrightarrow> sizeOf f z \<le> sizeOf f r"
    unfolding firstLargest_def by blast
  have "xs @ [x] = ys @ r # (zs @ [x])" using d(1) by simp
  moreover have "\<forall>z\<in>set (zs @ [x]). hash z = h \<longrightarrow> sizeOf f z \<le> sizeOf f r"
    using d(4) assms(2) by auto
  ultimately show ?thesis unfolding firstLargest_def using d(2,3) by blast
qed

lemma firstLargest_new:
  assumes "\<forall>y\<in>set xs. hash y = hash x \<longrightarrow> sizeOf f y < sizeOf f x"
  shows "firstLargest f (xs @ [x]) (hash x) x"
  unfolding firstLargest_def using assms by (intro exI[of _ xs] exI[of _ "[]"]) simp

lemma firstLargest_bound:
  assumes "firstLargest f xs h r" "y \<in> set xs" "hash y = h"
  shows "sizeOf f y \<le> sizeOf f r"
  using assms unfolding firstLargest_def by (auto simp: less_imp_le)

lemma uniqueInv_step:
  assumes I: "uniqueInv f xs (u0, hs0)" and S: "filterStep f x (u0, hs0) = Inr (u, hs)"
  shows "uniqueInv f (xs @ [x]) (u, hs)"
proof -
  let ?c = "\<lambda>info. map_of u0 (hash x) = None
      \<or> (case map_of hs0 (hash x) of None \<Rightarrow> 0 | Some s \<Rightarrow> s) <s fiSize info"
  from filterStep_Inr[OF S] obtain info where st: "stat f (filename x) = Some info"
    and upd: "?c info \<Longrightarrow> u = AList.update (hash x) x u0 \<and> hs = AList.update (hash x) (fiSize info) hs0"
    and keep: "\<not> ?c info \<Longrightarrow> u = u0 \<and> hs = hs0"
    by (auto split: if_splits)
  from I have stats: "\<forall>r\<in>set xs. stat f (filename r) \<noteq> None"
    and dist: "distinct (map fst u0)"
    and out: "\<And>h. h \<notin> hash ` set xs \<Longrightarrow> map_of u0 h = None"
    and inn: "\<And>h. h \<in> hash ` set xs \<Longrightarrow> \<exists>r. map_of u0 h = Some r \<and> firstLargest f xs h r
              \<and> (\<exists>info. stat f (filename r) = Some info \<and> map_of hs0 h = Some (fiSize info))"
    unfolding uniqueInv_def by auto
  have A: "\<forall>r\<in>set (xs @ [x]). stat f (filename r) \<noteq> None"
    using stats st by auto
  have B: "distinct (map fst u)"
    using dist upd keep by (cases "?c info") (auto simp: distinct_update)
  have C: "map_of u h = None" if "h \<notin> hash ` set (xs @ [x])" for h
  proof -
    from that have "h \<noteq> hash x" "h \<notin> hash ` set xs" by auto
    then show ?thesis using out[of h] upd keep by (cases "?c info") (auto simp: update_conv')
  qed
  have D: "\<exists>r. map_of u h = Some r \<and> firstLargest f (xs @ [x]) h r
              \<and> (\<exists>info. stat f (filename r) = Some info \<and> map_of hs h = Some (fiSize info))"
    if hin: "h \<in> hash ` set (xs @ [x])" for h
  proof (cases "?c info")
    case True
    then have u: "u = AList.update (hash x) x u0" and hs: "hs = AList.update (hash x) (fiSize info) hs0"
      using upd by auto
    show ?thesis
    proof (cases "h = hash x")
      case heq: True
      have smaller: "\<forall>y\<in>set xs. hash y = hash x \<longrightarrow> sizeOf f y < sizeOf f x"
      proof (intro ballI impI)
        fix y assume y: "y \<in> set xs" "hash y = hash x"
        then have "hash x \<in> hash ` set xs" by (metis imageI)
        from inn[OF this] obtain r i where r: "map_of u0 (hash x) = Some r" "firstLargest f xs (hash x) r"
          "stat f (filename r) = Some i" "map_of hs0 (hash x) = Some (fiSize i)" by blast
        with True have "fiSize i <s fiSize info" by simp
        then have "sizeOf f r < sizeOf f x" by (simp add: sizeOf_def r(3) st word_sless_alt)
        moreover have "sizeOf f y \<le> sizeOf f r" using firstLargest_bound[OF r(2) y] .
        ultimately show "sizeOf f y < sizeOf f x" by simp
      qed
      from firstLargest_new[OF smaller] show ?thesis
        by (simp add: heq u hs update_conv' st)
    next
      case hne: False
      with hin have "h \<in> hash ` set xs" by auto
      from inn[OF this] obtain r where r: "map_of u0 h = Some r" "firstLargest f xs h r"
        "\<exists>info. stat f (filename r) = Some info \<and> map_of hs0 h = Some (fiSize info)" by blast
      have "firstLargest f (xs @ [x]) h r" using firstLargest_keep[OF r(2)] hne by auto
      with r hne show ?thesis by (simp add: u hs update_conv')
    qed
  next
    case False
    then have u: "u = u0" "hs = hs0" using keep by auto
    from False obtain r0 where r0: "map_of u0 (hash x) = Some r0" by auto
    then have hx: "hash x \<in> hash ` set xs" using out[of "hash x"] by auto
    from inn[OF hx] r0 obtain i where r: "firstLargest f xs (hash x) r0"
        "stat f (filename r0) = Some i" "map_of hs0 (hash x) = Some (fiSize i)" by auto
    from False r(3) have "\<not> fiSize i <s fiSize info" by simp
    then have le: "sizeOf f x \<le> sizeOf f r0" by (simp add: sizeOf_def r(2) st word_sless_alt)
    from hin hx have hin': "h \<in> hash ` set xs" by auto
    from inn[OF this] obtain r where r': "map_of u0 h = Some r" "firstLargest f xs h r"
        "\<exists>info. stat f (filename r) = Some info \<and> map_of hs0 h = Some (fiSize info)" by blast
    have "hash x = h \<longrightarrow> sizeOf f x \<le> sizeOf f r" using le r0 r'(1) by auto
    from firstLargest_keep[OF r'(2) this] r' show ?thesis by (simp add: u)
  qed
  show ?thesis unfolding uniqueInv_def using A B C D by simp
qed

lemma uniqueInv_loop: "filterLoop f xs ([], []) = Inr st \<Longrightarrow> uniqueInv f xs st"
proof (induction xs arbitrary: st rule: rev_induct)
  case Nil
  then show ?case by (auto simp: uniqueInv_def)
next
  case (snoc x xs)
  from snoc.prems obtain st0 where a: "filterLoop f xs ([], []) = Inr st0" "filterStep f x st0 = Inr st"
    by (auto simp: filterLoop_snoc split: sum.splits)
  obtain u0 hs0 u hs where "st0 = (u0, hs0)" "st = (u, hs)" by (cases st0, cases st) auto
  with snoc.IH[OF a(1)] a(2) show ?case using uniqueInv_step by blast
qed


lemma filterStep_total:
  "stat f (filename x) \<noteq> None \<Longrightarrow> \<exists>st'. filterStep f x st = Inr st'"
  by (cases st) (auto simp: filterStep_def Let_def)

lemma filterLoop_total:
  "\<forall>r\<in>set xs. stat f (filename r) \<noteq> None \<Longrightarrow> \<exists>st'. filterLoop f xs st = Inr st'"
proof (induction xs arbitrary: st)
  case Nil
  then show ?case by simp
next
  case (Cons x xs)
  then obtain st1 where "filterStep f x st = Inr st1"
    using filterStep_total[of f x st] by auto
  with Cons show ?case by simp
qed

text \<open>
  Claim C1. When \<^verbatim>\<open>filterUniqueFiles\<close> returns, the keys of the returned map are distinct
  and are exactly the fingerprints of the drained records, and each fingerprint is mapped
  to the record with the largest file among those with that fingerprint, the first to
  arrive among equals. It returns whenever every drained record's file can be stat-ed.
\<close>

theorem filterUniqueFiles_largest_first:
  "(filterUniqueFiles f files = Inr unique \<longrightarrow>
      distinct (map fst unique) \<and> fst ` set unique = hash ` set files \<and>
      (\<forall>h\<in>hash ` set files. \<exists>r. map_of unique h = Some r \<and> firstLargest f files h r))
   \<and> ((\<forall>r\<in>set files. stat f (filename r) \<noteq> None) \<longrightarrow> (\<exists>u. filterUniqueFiles f files = Inr u))"
proof (intro conjI impI)
  assume a: "filterUniqueFiles f files = Inr unique"
  then obtain hs where "filterLoop f files ([], []) = Inr (unique, hs)"
    by (auto simp: filterUniqueFiles_def split: sum.splits)
  from uniqueInv_loop[OF this] have i: "uniqueInv f files (unique, hs)" .
  have dist: "distinct (map fst unique)"
    using i unfolding uniqueInv_def by simp
  have out: "map_of unique h = None" if "h \<notin> hash ` set files" for h
    using i that unfolding uniqueInv_def by simp
  have inn: "\<exists>r. map_of unique h = Some r \<and> firstLargest f files h r" if "h \<in> hash ` set files" for h
  proof -
    from i have "\<forall>h. h \<in> hash ` set files \<longrightarrow> (\<exists>r. map_of unique h = Some r \<and> firstLargest f files h r
              \<and> (\<exists>info. stat f (filename r) = Some info \<and> map_of hs h = Some (fiSize info)))"
      unfolding uniqueInv_def prod.case by blast
    with that show ?thesis by blast
  qed
  show "distinct (map fst unique)" by (rule dist)
  show "\<forall>h\<in>hash ` set files. \<exists>r. map_of unique h = Some r \<and> firstLargest f files h r"
    using inn by blast
  have "dom (map_of unique) = hash ` set files"
  proof (intro set_eqI iffI)
    fix h assume "h \<in> dom (map_of unique)"
    then show "h \<in> hash ` set files" using out[of h] by (cases "h \<in> hash ` set files") auto
  next
    fix h assume "h \<in> hash ` set files"
    from inn[OF this] show "h \<in> dom (map_of unique)" by auto
  qed
  then show "fst ` set unique = hash ` set files" by (simp add: dom_map_of_conv_image_fst)
next
  assume "\<forall>r\<in>set files. stat f (filename r) \<noteq> None"
  from filterLoop_total[OF this, of "([], [])"] show "\<exists>u. filterUniqueFiles f files = Inr u"
    by (auto simp: filterUniqueFiles_def)
qed

theorem filterUniqueFiles_largest_first_witness:
  "filterUniqueFiles exampleSizes exampleRecords = Inr [(7, exampleRecords ! 1)]
   \<and> firstLargest exampleSizes exampleRecords 7 (exampleRecords ! 1)
   \<and> (\<exists>u. filterUniqueFiles exampleSizes (tl exampleRecords) = Inr u)"
proof -
  have e: "filterUniqueFiles exampleSizes exampleRecords = Inr [(7, exampleRecords ! 1)]"
    by (simp add: filterUniqueFiles_def filterStep_def exampleSizes_def exampleRecords_def word_sless_alt)
  have s: "\<forall>r\<in>set (tl exampleRecords). stat exampleSizes (filename r) \<noteq> None"
    by (simp add: exampleSizes_def exampleRecords_def)
  have m: "(7::uint64) \<in> hash ` set exampleRecords"
    by (simp add: exampleRecords_def)
  from filterUniqueFiles_largest_first[of exampleSizes exampleRecords "[(7, exampleRecords ! 1)]"] e m
  have "\<exists>r. map_of [(7::uint64, exampleRecords ! 1)] 7 = Some r \<and> firstLargest exampleSizes exampleRecords 7 r"
    by blast
  then have "firstLargest exampleSizes exampleRecords 7 (exampleRecords ! 1)" by simp
  moreover from filterUniqueFiles_largest_first[of exampleSizes "tl exampleRecords"] s
  have "\<exists>u. filterUniqueFiles exampleSizes (tl exampleRecords) = Inr u" by blast
  ultimately show ?thesis using e by simp
qed

subsection \<open>Evaluation on concrete inputs\<close>

lemma digitChar_eval:
  "digitChar 0 = CHR ''0''" "digitChar 1 = CHR ''1''" "digitChar 2 = CHR ''2''" "digitChar 3 = CHR ''3''"
  "digitChar 4 = CHR ''4''" "digitChar 5 = CHR ''5''" "digitChar 6 = CHR ''6''" "digitChar 7 = CHR ''7''"
  "digitChar 8 = CHR ''8''" "digitChar 9 = CHR ''9''" "digitChar (Suc 0) = CHR ''1''"
  by (simp_all add: digitChar_def char_of_def bit_Suc_0_iff)

lemma replicate_numeral_eval: "replicate (numeral k) x = x # replicate (pred_numeral k) x"
  by (simp add: numeral_eq_Suc)

lemmas dateEval = extractDateFromFilename_def dateRe_def dateLayouts_def timeParse_def parseLoop.simps
  getnum_def atoi_def isDigit_def isDigitC_def digitVal_def formatISO_def appendInt_def zeroPad_def
  decimal.simps digitChar_eval replicate_numeral_eval daysIn_def isLeap_def Let_def

lemmas classEval = classOf_def Ext_def toLowerC_def char_of_def bit_Suc_0_iff
  SupportedImageFormats_def SupportedRawFormats_def SupportedVideoFormats_def

lemma nextStdChunk_dateLayouts:
  "map nextStdChunk dateLayouts =
     [([], Some StdLongYear, ''-01-02''), ([], Some StdZeroDay, ''-01-2006''),
      ([], Some StdLongYear, ''/01/02''), ([], Some StdZeroDay, ''/01/2006''),
      ([], Some StdLongYear, ''0102''), ([], Some StdYear, ''0102'')]"
  by (simp add: dateLayouts_def)

lemma filename_date_examples:
  "extractDateFromFilename ''2020-12-25.jpg'' = Inr ''2020-12-25''"
  "extractDateFromFilename ''25/12/2020'' = Inr ''2020-12-25''"
  "extractDateFromFilename ''IMG_20200101.jpg'' = Inr ''2020-01-01''"
  "extractDateFromFilename ''x691231.png'' = Inr ''1969-12-31''"
  "extractDateFromFilename ''20200230.jpg'' = Inl NoDateInFilename"
  "extractDateFromFilename ''clip.mp4'' = Inl NoDateInFilename"
  by (simp_all add: dateEval)

subsection \<open>The order of the three tiers\<close>

text \<open>
  Claim C2. \<^verbatim>\<open>ExtractDate\<close> returns the embedded metadata date whenever the metadata
  yields a timestamp, whatever the file name holds; when the metadata fails, the date
  found in the file name; and when both fail, the result of the modification-time tier.
\<close>

theorem ExtractDate_tiers:
  "(exifDateTime f filePath = Inr t \<longrightarrow> ExtractDate f filePath fname = Inr (formatISO t))
   \<and> (exifDateTime f filePath = Inl e \<and> extractDateFromFilename fname = Inr d
        \<longrightarrow> ExtractDate f filePath fname = Inr d)
   \<and> (exifDateTime f filePath = Inl e \<and> extractDateFromFilename fname = Inl e'
        \<longrightarrow> ExtractDate f filePath fname = extractFileModTime f filePath)"
  by (simp add: ExtractDate_def extractExifDate_def)

theorem ExtractDate_tiers_witness:
  "ExtractDate exifDated ''/s/IMG_20200101.jpg'' ''IMG_20200101.jpg'' = Inr ''2021-06-01''
   \<and> extractDateFromFilename ''IMG_20200101.jpg'' = Inr ''2020-01-01''
   \<and> ExtractDate exifDated ''/s/trip_20200101.mp4'' ''IMG_20200101.jpg'' = Inr ''2020-01-01''
   \<and> ExtractDate exifDated ''/s/trip_20200101.mp4'' ''clip.mp4'' = Inr ''2023-11-05''"
proof -
  have fn1: "extractDateFromFilename ''IMG_20200101.jpg'' = Inr ''2020-01-01''"
    and fn2: "extractDateFromFilename ''clip.mp4'' = Inl NoDateInFilename"
    by (simp_all add: dateEval)
  have fmt1: "formatISO \<lparr>year = 2021, month = 6, day = 1\<rparr> = ''2021-06-01''"
    by (simp add: dateEval)
  have a: "exifDateTime exifDated ''/s/IMG_20200101.jpg'' = Inr \<lparr>year = 2021, month = 6, day = 1\<rparr>"
    by (simp add: exifDated_def)
  have b: "exifDateTime exifDated ''/s/trip_20200101.mp4'' = Inl ExifErr"
    by (simp add: exifDated_def)
  have c: "extractFileModTime exifDated ''/s/trip_20200101.mp4'' = Inr ''2023-11-05''"
    by (simp add: extractFileModTime_def exifDated_def dateEval)
  have 1: "ExtractDate exifDated ''/s/IMG_20200101.jpg'' ''IMG_20200101.jpg'' = Inr ''2021-06-01''"
    using ExtractDate_tiers[THEN conjunct1, rule_format, OF a, of "''IMG_20200101.jpg''"]
    by (simp only: fmt1)
  have 2: "ExtractDate exifDated ''/s/trip_20200101.mp4'' ''IMG_20200101.jpg'' = Inr ''2020-01-01''"
    using ExtractDate_tiers[THEN conjunct2, THEN conjunct1, rule_format, OF conjI, OF b fn1] .
  have 3: "ExtractDate exifDated ''/s/trip_20200101.mp4'' ''clip.mp4'' = Inr ''2023-11-05''"
    using ExtractDate_tiers[THEN conjunct2, THEN conjunct2, rule_format, OF conjI, OF b fn2]
    by (simp only: c)
  show ?thesis using 1 2 3 fn1 by (intro conjI)
qed

subsection \<open>File names the pattern does not cover\<close>

text \<open>
  Claim C4. The layouts \<^verbatim>\<open>02-01-2006\<close> and \<^verbatim>\<open>2006/01/02\<close> are in \<^verbatim>\<open>dateLayouts\<close> and
  parse a day-first dashed date and a year-first slashed date, but the regular expression
  has no alternative that matches such a substring: a file name that holds only such a
  date yields no date.
\<close>

theorem extractDateFromFilename_uncovered_layouts:
  "extractDateFromFilename ''25-12-2020.jpg'' = Inl NoDateInFilename
   \<and> findString dateRe ''25-12-2020.jpg'' = None
   \<and> timeParse ''02-01-2006'' ''25-12-2020'' = Inr \<lparr>year = 2020, month = 12, day = 25\<rparr>
   \<and> extractDateFromFilename ''2020/12/25.jpg'' = Inl NoDateInFilename
   \<and> findString dateRe ''2020/12/25.jpg'' = None
   \<and> timeParse ''2006/01/02'' ''2020/12/25'' = Inr \<lparr>year = 2020, month = 12, day = 25\<rparr>"
  by (simp add: dateEval)

subsection \<open>Raw and video files whose date cannot be resolved\<close>

lemma image_date_failure_skips:
  "ExtractDate (tline 1) filePath (Base filePath) = Inl e \<Longrightarrow> processImageFile tline filePath = []"
  by (simp add: processImageFile_def split: imageResult.splits)

lemma raw_video_date_failure_unchanged_file:
  assumes "stat (tline 1) filePath = stat (tline 0) filePath"
    and "ExtractDate (tline 1) filePath (Base filePath) = Inl e"
  shows "processRawFile tline filePath = [] \<and> processVideoFile tline filePath = []"
  using assms
  by (auto simp: processRawFile_def processVideoFile_def ExtractDate_def extractFileModTime_def
      split: sum.splits option.splits)

text \<open>
  Claim C3. A raw or video file that the first \<^verbatim>\<open>os.Stat\<close> still finds, and for which
  \<^verbatim>\<open>ExtractDate\<close> and the fallback \<^verbatim>\<open>extractFileCreationDate\<close> then both fail, is not
  skipped: a record with the empty date is sent on the result channel.
\<close>

theorem undated_record_is_pushed:
  "ExtractDate (vanishing 1) ''/s/a.nef'' (Base ''/s/a.nef'') = Inl StatErr
   \<and> extractFileCreationDate (vanishing 2) ''/s/a.nef'' = Inl StatErr
   \<and> processRawFile vanishing ''/s/a.nef'' = [\<lparr>hash = 1000, filename = ''/s/a.nef'', isoDate = ''''\<rparr>]
   \<and> ExtractDate (vanishing 1) ''/s/a.mov'' (Base ''/s/a.mov'') = Inl StatErr
   \<and> extractFileCreationDate (vanishing 2) ''/s/a.mov'' = Inl StatErr
   \<and> processVideoFile vanishing ''/s/a.mov'' = [\<lparr>hash = 1000, filename = ''/s/a.mov'', isoDate = ''''\<rparr>]"
  by (simp add: vanishing_def processRawFile_def processVideoFile_def ExtractDate_def
      extractExifDate_def extractFileModTime_def extractFileCreationDate_def Base_def dateEval)

subsection \<open>The ledger\<close>



text \<open>
  Claim C10. When the ledger opens and holds bytes that do not decode, \<^verbatim>\<open>writeIndexJSON\<close>
  returns the decoding error and the files are as they were.
\<close>

theorem writeIndexJSON_corrupt_unchanged:
  "openFileOk os (pathJoin os destPath ''index.json'')
     \<and> files (pathJoin os destPath ''index.json'') = Some (Malformed raw)
   \<longrightarrow> writeIndexJSON os files destPath mapping = (Some DecodeErr, files)"
  by (auto simp: writeIndexJSON_def Let_def decodeExisting_def fun_upd_idem)

theorem writeIndexJSON_corrupt_unchanged_witness:
  "writeIndexJSON plainOS [''/d/2020-05-17/index.json'' \<mapsto> Malformed ''{\"a.jpg\": ''] ''/d/2020-05-17''
       [''b.jpg'' \<mapsto> ''002.jpg'']
     = (Some DecodeErr, [''/d/2020-05-17/index.json'' \<mapsto> Malformed ''{\"a.jpg\": ''])"
proof -
  let ?files = "[''/d/2020-05-17/index.json'' \<mapsto> Malformed ''{\"a.jpg\": '']"
  have "openFileOk plainOS (pathJoin plainOS ''/d/2020-05-17'' ''index.json'')
     \<and> ?files (pathJoin plainOS ''/d/2020-05-17'' ''index.json'') = Some (Malformed ''{\"a.jpg\": '')"
    by (simp add: plainOS_def)
  with writeIndexJSON_corrupt_unchanged[of plainOS "''/d/2020-05-17''" ?files]
  show ?thesis by blast
qed

subsection \<open>The size as fingerprint\<close>

lemma raw_video_hash:
  "r \<in> set (processRawFile tline p) \<union> set (processVideoFile tline p)
   \<Longrightarrow> \<exists>info. stat (tline 0) p = Some info \<and> hash r = fiSize info \<and> filename r = p"
  by (cases "stat (tline 0) p") (auto simp: processRawFile_def processVideoFile_def Let_def)

lemma nonneg_size_unat:
  fixes w :: int64
  assumes "0 \<le> sint w"
  shows "int (unat w) = sint w"
proof -
  have "sint w < 2 ^ 64"
    using sint_lt[of w] by simp
  then have "take_bit 64 (sint w) = sint w"
    using assms by (intro take_bit_int_eq_self)
  moreover have "uint w = take_bit 64 (sint w)"
    using uint_sint[of w] by simp
  ultimately show ?thesis by simp
qed

text \<open>
  Claim C8. A record that \<^verbatim>\<open>processRawFile\<close> or \<^verbatim>\<open>processVideoFile\<close> sends has as its
  fingerprint the 64 bits of the size \<^verbatim>\<open>os.Stat\<close> returned, whose unsigned value is the
  size when the size is not negative. Two such records for files of equal size have
  equal fingerprints, and the reducer keeps only one of the two.
\<close>

theorem size_is_fingerprint:
  "(r \<in> set (processRawFile tline p) \<union> set (processVideoFile tline p) \<longrightarrow>
      (\<exists>info. stat (tline 0) p = Some info \<and> hash r = fiSize info
          \<and> (0 \<le> sint (fiSize info) \<longrightarrow> int (unat (hash r)) = sint (fiSize info))))
   \<and> (r1 \<in> set (processRawFile t1 p1) \<union> set (processVideoFile t1 p1)
      \<and> r2 \<in> set (processRawFile t2 p2) \<union> set (processVideoFile t2 p2)
      \<and> map_option fiSize (stat (t1 0) p1) = map_option fiSize (stat (t2 0) p2)
      \<longrightarrow> hash r1 = hash r2
          \<and> (\<forall>f u. filterUniqueFiles f [r1, r2] = Inr u \<longrightarrow> (u = [(hash r1, r1)] \<or> u = [(hash r1, r2)])))"
proof (intro conjI impI)
  assume "r \<in> set (processRawFile tline p) \<union> set (processVideoFile tline p)"
  from raw_video_hash[OF this] obtain info where i: "stat (tline 0) p = Some info" "hash r = fiSize info"
    by blast
  have "0 \<le> sint (fiSize info) \<longrightarrow> int (unat (fiSize info)) = sint (fiSize info)"
    using nonneg_size_unat by blast
  with i show "\<exists>info. stat (tline 0) p = Some info \<and> hash r = fiSize info
          \<and> (0 \<le> sint (fiSize info) \<longrightarrow> int (unat (hash r)) = sint (fiSize info))"
    by simp
next
  assume a: "r1 \<in> set (processRawFile t1 p1) \<union> set (processVideoFile t1 p1)
      \<and> r2 \<in> set (processRawFile t2 p2) \<union> set (processVideoFile t2 p2)
      \<and> map_option fiSize (stat (t1 0) p1) = map_option fiSize (stat (t2 0) p2)"
  from a raw_video_hash[of r1 t1 p1] raw_video_hash[of r2 t2 p2]
  show h: "hash r1 = hash r2" by auto
  show "\<forall>f u. filterUniqueFiles f [r1, r2] = Inr u \<longrightarrow> (u = [(hash r1, r1)] \<or> u = [(hash r1, r2)])"
    using h by (auto simp: filterUniqueFiles_def filterStep_def Let_def split: option.splits if_splits sum.splits)
qed

theorem size_is_fingerprint_witness:
  "processVideoFile (\<lambda>k. equalSizes) ''/s/b.mp4''
     = [\<lparr>hash = 30, filename = ''/s/b.mp4'', isoDate = ''2020-05-17''\<rparr>]
   \<and> processRawFile (\<lambda>k. equalSizes) ''/s/c.nef''
     = [\<lparr>hash = 30, filename = ''/s/c.nef'', isoDate = ''2020-05-17''\<rparr>]
   \<and> filterUniqueFiles equalSizes
        [\<lparr>hash = 30, filename = ''/s/b.mp4'', isoDate = ''2020-05-17''\<rparr>,
         \<lparr>hash = 30, filename = ''/s/c.nef'', isoDate = ''2020-05-17''\<rparr>]
     = Inr [(30, \<lparr>hash = 30, filename = ''/s/b.mp4'', isoDate = ''2020-05-17''\<rparr>)]"
proof -
  let ?rb = "\<lparr>hash = 30 :: uint64, filename = ''/s/b.mp4'', isoDate = ''2020-05-17''\<rparr>"
  let ?rc = "\<lparr>hash = 30 :: uint64, filename = ''/s/c.nef'', isoDate = ''2020-05-17''\<rparr>"
  have b: "processVideoFile (\<lambda>k. equalSizes) ''/s/b.mp4'' = [?rb]"
    by (simp add: processVideoFile_def Base_def ExtractDate_def extractExifDate_def
        extractFileModTime_def equalSizes_def dateEval)
  have c: "processRawFile (\<lambda>k. equalSizes) ''/s/c.nef'' = [?rc]"
    by (simp add: processRawFile_def Base_def ExtractDate_def extractExifDate_def
        extractFileModTime_def equalSizes_def dateEval)
  have u: "filterUniqueFiles equalSizes [?rb, ?rc] = Inr [(30, ?rb)]"
    by (simp add: filterUniqueFiles_def filterStep_def equalSizes_def word_sless_alt)
  have "?rb \<in> set (processRawFile (\<lambda>k. equalSizes) ''/s/b.mp4'') \<union> set (processVideoFile (\<lambda>k. equalSizes) ''/s/b.mp4'')
      \<and> ?rc \<in> set (processRawFile (\<lambda>k. equalSizes) ''/s/c.nef'') \<union> set (processVideoFile (\<lambda>k. equalSizes) ''/s/c.nef'')
      \<and> map_option fiSize (stat equalSizes ''/s/b.mp4'') = map_option fiSize (stat equalSizes ''/s/c.nef'')"
    using b c by (simp add: equalSizes_def)
  with size_is_fingerprint[of _ _ _ ?rb "\<lambda>k. equalSizes" "''/s/b.mp4''" ?rc "\<lambda>k. equalSizes" "''/s/c.nef''"]
  have "hash ?rb = hash ?rc" by blast
  with b c u show ?thesis by simp
qed

subsection \<open>Counting files and records by class\<close>

lemma process_sends:
  "length (processImageFile t f) \<le> 1 \<and> (\<forall>r\<in>set (processImageFile t f). filename r = f)"
  "length (processRawFile t f) \<le> 1 \<and> (\<forall>r\<in>set (processRawFile t f). filename r = f)"
  "length (processVideoFile t f) \<le> 1 \<and> (\<forall>r\<in>set (processVideoFile t f). filename r = f)"
  by (auto simp: processImageFile_def processRawFile_def processVideoFile_def Let_def
      split: imageResult.splits sum.splits option.splits)

lemma recCls_sent:
  assumes "length rs \<le> 1" "\<forall>r\<in>set rs. filename r = f"
  shows "recCls k rs \<le> (if classOf f = k then 1 else 0)"
proof (cases rs)
  case Nil
  then show ?thesis by (simp add: recCls_def)
next
  case (Cons r rest)
  with assms have "rest = []" "filename r = f" by auto
  with Cons show ?thesis by (simp add: recCls_def)
qed

lemma recCls_append: "recCls k (xs @ ys) = recCls k xs + recCls k ys"
  by (simp add: recCls_def)

lemma workOne_effect:
  assumes "workOne tlines f (c, rs) = (c', rs')" "k \<noteq> Unsupported"
  shows "seenOf k c' = seenOf k c + (if classOf f = k then 1 else 0)"
    and "copiedOf k c' = copiedOf k c"
    and "recCls k rs' \<le> recCls k rs + (if classOf f = k then 1 else 0)"
proof -
  obtain sent where s: "rs' = rs @ sent" "length sent \<le> 1" "\<forall>r\<in>set sent. filename r = f"
    using assms(1) process_sends[of "tlines f" f]
    by (cases "classOf f") (auto simp: workOne_def)
  show "recCls k rs' \<le> recCls k rs + (if classOf f = k then 1 else 0)"
    using recCls_sent[OF s(2,3), of k] by (simp add: s(1) recCls_append)
  show "seenOf k c' = seenOf k c + (if classOf f = k then 1 else 0)"
    using assms by (cases "classOf f"; cases k) (auto simp: workOne_def seenOf_def)
  show "copiedOf k c' = copiedOf k c"
    using assms by (cases "classOf f"; cases k) (auto simp: workOne_def copiedOf_def)
qed

lemma workAll_effect:
  assumes "workAll tlines fs (c, rs) = (c', rs')" "k \<noteq> Unsupported"
  shows "seenOf k c' = seenOf k c + of_nat (countCls k fs)
       \<and> copiedOf k c' = copiedOf k c
       \<and> recCls k rs' \<le> recCls k rs + countCls k fs"
  using assms
proof (induction fs arbitrary: c rs)
  case Nil
  then show ?case by (simp add: countCls_def)
next
  case (Cons f fs)
  obtain c1 rs1 where w: "workOne tlines f (c, rs) = (c1, rs1)" by (cases "workOne tlines f (c, rs)")
  with Cons.prems have "workAll tlines fs (c1, rs1) = (c', rs')" by simp
  from Cons.IH[OF this Cons.prems(2)] workOne_effect[OF w Cons.prems(2)]
  show ?case by (auto simp: countCls_def)
qed

lemma update_filter_length:
  "length (filter P (map snd (AList.update k v al))) \<le> length (filter P (map snd al)) + (if P v then 1 else 0)"
  by (induction al) auto

lemma filterStep_count:
  assumes "filterStep f x (u0, hs0) = Inr (u, hs)"
  shows "length (filter P (map snd u)) \<le> length (filter P (map snd u0)) + (if P x then 1 else 0)"
proof -
  from assms have "u = AList.update (hash x) x u0 \<or> u = u0"
    by (auto simp: filterStep_def Let_def split: option.splits if_splits)
  then show ?thesis using update_filter_length[of P "hash x" x u0] by auto
qed

lemma filterLoop_count:
  "filterLoop f xs (u0, hs0) = Inr (u, hs) \<Longrightarrow>
     length (filter P (map snd u)) \<le> length (filter P (map snd u0)) + length (filter P xs)"
proof (induction xs arbitrary: u0 hs0)
  case Nil
  then show ?case by simp
next
  case (Cons x xs)
  from Cons.prems obtain u1 hs1 where s: "filterStep f x (u0, hs0) = Inr (u1, hs1)"
    and l: "filterLoop f xs (u1, hs1) = Inr (u, hs)"
    by (auto split: sum.splits)
  from Cons.IH[OF l] filterStep_count[OF s, of P] show ?case by auto
qed

lemma filterUniqueFiles_count:
  assumes "filterUniqueFiles f xs = Inr u"
  shows "recCls k (map snd u) \<le> recCls k xs"
proof -
  from assms obtain hs where "filterLoop f xs ([], []) = Inr (u, hs)"
    by (auto simp: filterUniqueFiles_def split: sum.splits)
  from filterLoop_count[OF this, of "\<lambda>r. classOf (filename r) = k"] show ?thesis
    by (simp add: recCls_def)
qed

lemma recCls_mset: "mset xs = mset ys \<Longrightarrow> recCls k xs = recCls k ys"
  unfolding recCls_def by (metis mset_filter size_mset)

lemma unat_succ_le: "unat (x + 1 :: uint64) \<le> unat x + 1"
proof -
  have "unat (x + 1) = (unat x + 1) mod 2 ^ 64"
    by (simp add: unat_word_ariths)
  then show ?thesis by simp
qed


text \<open>What one iteration of the placement loop does to the state.\<close>

lemma placeOne_cases:
  "placeOne os srcDir destDir r st = st
   \<or> (\<exists>call led c'.
        placeOne os srcDir destDir r st =
          st\<lparr>cnt := c', dateCounters := (dateCounters st)(isoDate r := dateCounters st (isoDate r) + 1),
             ledgers := led, copies := copies st @ [call]\<rparr>
        \<and> forDate call = isoDate r
        \<and> srcFile call = filename r
        \<and> newName call = zeroPad 3 (unat (dateCounters st (isoDate r) + 1)) @ Ext (filename r)
        \<and> dstFile call = pathJoin os (pathJoin os destDir (isoDate r)) (newName call)
        \<and> (\<forall>k. k \<noteq> Unsupported \<longrightarrow> seenOf k c' = seenOf k (cnt st)
              \<and> (copiedOf k c' = copiedOf k (cnt st)
                  \<or> (classOf (filename r) = k \<and> copiedOf k c' = copiedOf k (cnt st) + 1))))"
proof (cases "mkdirAllOk os (pathJoin os destDir (isoDate r))")
  case False
  then show ?thesis by (simp add: placeOne_def Let_def)
next
  case mk: True
  show ?thesis
  proof (cases "pathRel os srcDir (filename r)")
    case None
    then show ?thesis by (simp add: placeOne_def Let_def)
  next
    case (Some relPath)
    let ?n = "dateCounters st (isoDate r) + 1"
    let ?name = "zeroPad 3 (unat ?n) @ Ext (filename r)"
    let ?dst = "pathJoin os (pathJoin os destDir (isoDate r)) ?name"
    show ?thesis
    proof (cases "copyFile os (filename r) ?dst")
      case (Some e)
      have "placeOne os srcDir destDir r st =
          st\<lparr>cnt := cnt st, dateCounters := (dateCounters st)(isoDate r := ?n),
             ledgers := ledgers st,
             copies := copies st @ [\<lparr>forDate = isoDate r, newName = ?name, srcFile = filename r,
                                    dstFile = ?dst, succeeded = False\<rparr>]\<rparr>"
        using mk \<open>pathRel os srcDir (filename r) = Some relPath\<close> Some
        by (simp add: placeOne_def Let_def)
      then show ?thesis
        by (intro disjI2 exI[of _ "\<lparr>forDate = isoDate r, newName = ?name, srcFile = filename r,
                                    dstFile = ?dst, succeeded = False\<rparr>"]
              exI[of _ "ledgers st"] exI[of _ "cnt st"]) simp
    next
      case None
      let ?call = "\<lparr>forDate = isoDate r, newName = ?name, srcFile = filename r,
                      dstFile = ?dst, succeeded = True\<rparr>"
      obtain e led where w: "writeIndexJSON os (ledgers st) (pathJoin os destDir (isoDate r)) [relPath \<mapsto> ?name] = (e, led)"
        by (cases "writeIndexJSON os (ledgers st) (pathJoin os destDir (isoDate r)) [relPath \<mapsto> ?name]")
      let ?c' = "(case e of Some x \<Rightarrow> cnt st
                  | None \<Rightarrow> (case classOf (filename r) of
                        Image \<Rightarrow> (cnt st)\<lparr>imageCopied := imageCopied (cnt st) + 1\<rparr>
                      | Raw \<Rightarrow> (cnt st)\<lparr>rawCopied := rawCopied (cnt st) + 1\<rparr>
                      | Video \<Rightarrow> (cnt st)\<lparr>videoCopied := videoCopied (cnt st) + 1\<rparr>
                      | Unsupported \<Rightarrow> cnt st))"
      have eq: "placeOne os srcDir destDir r st =
          st\<lparr>cnt := ?c', dateCounters := (dateCounters st)(isoDate r := ?n),
             ledgers := led, copies := copies st @ [?call]\<rparr>"
        using mk \<open>pathRel os srcDir (filename r) = Some relPath\<close> None w
        by (cases e; cases "classOf (filename r)") (simp_all add: placeOne_def Let_def)
      have cs: "\<forall>k. k \<noteq> Unsupported \<longrightarrow> seenOf k ?c' = seenOf k (cnt st)
              \<and> (copiedOf k ?c' = copiedOf k (cnt st)
                  \<or> (classOf (filename r) = k \<and> copiedOf k ?c' = copiedOf k (cnt st) + 1))"
      proof (intro allI impI)
        fix k :: cls assume "k \<noteq> Unsupported"
        then show "seenOf k ?c' = seenOf k (cnt st)
              \<and> (copiedOf k ?c' = copiedOf k (cnt st)
                  \<or> (classOf (filename r) = k \<and> copiedOf k ?c' = copiedOf k (cnt st) + 1))"
          by (cases e; cases "classOf (filename r)"; cases k) (simp_all add: seenOf_def copiedOf_def)
      qed
      show ?thesis
        by (rule disjI2, rule exI[of _ ?call], rule exI[of _ led], rule exI[of _ ?c'])
           (use eq cs in simp)
    qed
  qed
qed


lemma placeOne_counts:
  assumes "k \<noteq> Unsupported"
  shows "seenOf k (cnt (placeOne os srcDir destDir r st)) = seenOf k (cnt st)
       \<and> unat (copiedOf k (cnt (placeOne os srcDir destDir r st)))
            \<le> unat (copiedOf k (cnt st)) + (if classOf (filename r) = k then 1 else 0)"
  using placeOne_cases[of os srcDir destDir r st] assms unat_succ_le[of "copiedOf k (cnt st)"]
  by (elim disjE exE conjE) (simp, (erule allE[of _ k], auto))

lemma placeAll_counts:
  assumes "k \<noteq> Unsupported"
  shows "seenOf k (cnt (placeAll osf srcDir destDir rs st)) = seenOf k (cnt st)
       \<and> unat (copiedOf k (cnt (placeAll osf srcDir destDir rs st)))
            \<le> unat (copiedOf k (cnt st)) + recCls k rs"
proof (induction rs arbitrary: st)
  case Nil
  then show ?case by (simp add: recCls_def)
next
  case (Cons r rs)
  from Cons.IH[of "placeOne (osf r) srcDir destDir r st"]
       placeOne_counts[OF assms, of "osf r" srcDir destDir r st]
  show ?case by (auto simp: recCls_def)
qed

lemma numbered_snoc:
  "numbered (cs @ [c]) \<longleftrightarrow>
     numbered cs \<and> newName c = zeroPad 3 (Suc (length cs) mod 2 ^ 64) @ Ext (srcFile c)"
proof -
  have "[1 ..< Suc (Suc (length cs))] = [1 ..< Suc (length cs)] @ [Suc (length cs)]"
    by simp
  then have "zip [1 ..< Suc (length (cs @ [c]))] (cs @ [c])
      = zip [1 ..< Suc (length cs)] cs @ [(Suc (length cs), c)]"
    by (simp del: upt_Suc)
  then show ?thesis
    unfolding numbered_def by (auto simp del: upt_Suc)
qed

lemma allocInv_step:
  assumes "allocInv st"
  shows "allocInv (placeOne os srcDir destDir r st)"
  using placeOne_cases[of os srcDir destDir r st]
proof (elim disjE exE conjE)
  assume "placeOne os srcDir destDir r st = st"
  with assms show ?thesis by simp
next
  fix call led c'
  assume eq: "placeOne os srcDir destDir r st =
          st\<lparr>cnt := c', dateCounters := (dateCounters st)(isoDate r := dateCounters st (isoDate r) + 1),
             ledgers := led, copies := copies st @ [call]\<rparr>"
    and fd: "forDate call = isoDate r" and sf: "srcFile call = filename r"
    and nn: "newName call = zeroPad 3 (unat (dateCounters st (isoDate r) + 1)) @ Ext (filename r)"
  let ?n = "length (allocatedIn (isoDate r) (copies st))"
  from assms have dc: "dateCounters st d = of_nat (length (allocatedIn d (copies st)))"
    and nb: "numbered (allocatedIn d (copies st))" for d
    unfolding allocInv_def by auto
  have "dateCounters st (isoDate r) + 1 = (of_nat (Suc ?n) :: uint64)"
    by (simp add: dc)
  then have u: "unat (dateCounters st (isoDate r) + 1) = Suc ?n mod 2 ^ 64"
    by (simp only: unat_of_nat) simp
  show ?thesis
    unfolding allocInv_def
  proof (intro allI)
    fix d
    show "dateCounters (placeOne os srcDir destDir r st) d =
            of_nat (length (allocatedIn d (copies (placeOne os srcDir destDir r st))))
          \<and> numbered (allocatedIn d (copies (placeOne os srcDir destDir r st)))"
    proof (cases "d = isoDate r")
      case True
      have a: "allocatedIn d (copies (placeOne os srcDir destDir r st)) = allocatedIn d (copies st) @ [call]"
        by (simp add: eq allocatedIn_def fd True)
      show ?thesis
        using dc[of d] nb[of d] u nn sf by (simp add: a numbered_snoc) (simp add: eq True)
    next
      case False
      have a: "allocatedIn d (copies (placeOne os srcDir destDir r st)) = allocatedIn d (copies st)"
        using False by (simp add: eq allocatedIn_def fd)
      show ?thesis
        using dc[of d] nb[of d] False by (simp add: a) (simp add: eq)
    qed
  qed
qed

lemma allocInv_placeAll:
  "allocInv st \<Longrightarrow> allocInv (placeAll osf srcDir destDir rs st)"
  by (induction rs arbitrary: st) (auto intro: allocInv_step)

lemma extScan_suffix: "extScan xs acc = [] \<or> (\<exists>pre. rev xs @ acc = pre @ extScan xs acc)"
proof (induction xs arbitrary: acc)
  case Nil
  then show ?case by simp
next
  case (Cons c cs)
  show ?case
  proof (cases "c = CHR ''/''")
    case True
    then show ?thesis by simp
  next
    case sep: False
    show ?thesis
    proof (cases "c = CHR ''.''")
      case True
      then show ?thesis using sep by simp
    next
      case False
      with sep Cons.IH[of "c # acc"] show ?thesis by simp
    qed
  qed
qed

lemma Ext_suffix: "\<exists>pre. path = pre @ Ext path"
  using extScan_suffix[of "rev path" "[]"] by (auto simp: Ext_def)

lemma nameInv_step:
  assumes "nameInv st"
  shows "nameInv (placeOne os srcDir destDir r st)"
  using placeOne_cases[of os srcDir destDir r st] assms
  by (elim disjE exE conjE) (auto simp: nameInv_def)

lemma nameInv_placeAll:
  "nameInv st \<Longrightarrow> nameInv (placeAll osf srcDir destDir rs st)"
  by (induction rs arbitrary: st) (auto intro: nameInv_step)

lemma ProcessFiles_Finished:
  assumes "ProcessFiles w srcDir destDir numWorkers = Inr (Finished st)"
  obtains fileList counted resultChan uniqueFiles st0 where
    "walk w srcDir = Inr fileList" "fileList \<noteq> []" "0 < numWorkers"
    "workAll (timelineOf w) fileList (zeroCounters, []) = (counted, resultChan)"
    "filterUniqueFiles (reduceFs w) (arrival w resultChan) = Inr uniqueFiles"
    "st0 = placeAll (osFor w) srcDir destDir (map snd (rangeOrder w uniqueFiles))
             \<lparr>cnt = counted, dateCounters = (\<lambda>d. 0), ledgers = ledgers0 w, copies = []\<rparr>"
    "st = st0\<lparr>cnt := (cnt st0)\<lparr>imageDuplicates := imageCount (cnt st0) - imageCopied (cnt st0),
                                rawDuplicates := rawCount (cnt st0) - rawCopied (cnt st0),
                                videoDuplicates := videoCount (cnt st0) - videoCopied (cnt st0)\<rparr>\<rparr>"
  using assms
  by (auto simp: ProcessFiles_def Let_def split: sum.splits if_splits prod.splits)


subsection \<open>Two concrete runs\<close>

lemmas runEval = ProcessFiles_def workOne_def processVideoFile_def processRawFile_def processImageFile_def
  ExtractDate_def extractExifDate_def extractFileModTime_def extractFileCreationDate_def Base_def
  filterUniqueFiles_def filterStep_def word_sless_alt placeOne_def copyFile_def writeIndexJSON_def
  decodeExisting_def zeroCounters_def

lemma copyFails_run:
  "\<exists>st. ProcessFiles copyFails ''/s'' ''/d'' 4 = Inr (Finished st)
     \<and> copies st =
         [\<lparr>forDate = ''2020-05-17'', newName = ''001.mov'', srcFile = ''/s/a.mov'',
           dstFile = ''/d/2020-05-17/001.mov'', succeeded = False\<rparr>,
          \<lparr>forDate = ''2020-05-17'', newName = ''002.mov'', srcFile = ''/s/b.mov'',
           dstFile = ''/d/2020-05-17/002.mov'', succeeded = True\<rparr>]
     \<and> videoCount (cnt st) = 2 \<and> videoCopied (cnt st) = 1 \<and> videoDuplicates (cnt st) = 1"
  by (simp add: runEval copyFails_def twoVideos_def plainOS_def classEval dateEval)


lemma upperCase_run:
  "\<exists>st. ProcessFiles upperCase ''/s'' ''/d'' 4 = Inr (Finished st)
     \<and> copies st =
         [\<lparr>forDate = ''2021-06-01'', newName = ''001.JPG'', srcFile = ''/s/IMG_20200101.JPG'',
           dstFile = ''/d/2021-06-01/001.JPG'', succeeded = True\<rparr>]
     \<and> ledgers st ''/d/2021-06-01/index.json'' = Some (Object [''IMG_20200101.JPG'' \<mapsto> ''001.JPG''])
     \<and> imageCount (cnt st) = 1 \<and> imageCopied (cnt st) = 1 \<and> imageDuplicates (cnt st) = 0"
  by (simp add: runEval upperCase_def plainOS_def classEval dateEval)

lemma zeroPad_eval: "zeroPad 3 1 = ''001''" "zeroPad 3 2 = ''002''" "zeroPad 3 (Suc 0) = ''001''"
  by (simp_all add: dateEval)

subsection \<open>The summary\<close>

lemma class_counts:
  assumes run: "ProcessFiles w srcDir destDir numWorkers = Inr (Finished st)"
    and arr: "\<forall>rs. mset (arrival w rs) = mset rs"
    and rng: "\<forall>u. mset (rangeOrder w u) = mset u"
    and len: "\<forall>l. walk w srcDir = Inr l \<longrightarrow> length l < 2 ^ 63"
    and k: "k \<noteq> Unsupported"
  shows "unat (copiedOf k (cnt st)) \<le> unat (seenOf k (cnt st))"
proof -
  from run obtain fileList counted resultChan uniqueFiles st0 where
    wk: "walk w srcDir = Inr fileList"
    and wa: "workAll (timelineOf w) fileList (zeroCounters, []) = (counted, resultChan)"
    and fu: "filterUniqueFiles (reduceFs w) (arrival w resultChan) = Inr uniqueFiles"
    and st0: "st0 = placeAll (osFor w) srcDir destDir (map snd (rangeOrder w uniqueFiles))
             \<lparr>cnt = counted, dateCounters = (\<lambda>d. 0), ledgers = ledgers0 w, copies = []\<rparr>"
    and st: "st = st0\<lparr>cnt := (cnt st0)\<lparr>imageDuplicates := imageCount (cnt st0) - imageCopied (cnt st0),
                                rawDuplicates := rawCount (cnt st0) - rawCopied (cnt st0),
                                videoDuplicates := videoCount (cnt st0) - videoCopied (cnt st0)\<rparr>\<rparr>"
    by (rule ProcessFiles_Finished)
  have z: "seenOf k zeroCounters = 0" "copiedOf k zeroCounters = 0"
    by (cases k; simp add: seenOf_def copiedOf_def zeroCounters_def)+
  from workAll_effect[OF wa k] z
  have seen: "seenOf k counted = of_nat (countCls k fileList)"
    and cop0: "copiedOf k counted = 0"
    and recs: "recCls k resultChan \<le> countCls k fileList"
    by (simp_all add: recCls_def)
  have "countCls k fileList \<le> length fileList"
    by (simp add: countCls_def)
  also have "length fileList < 2 ^ 63" using len wk by simp
  finally have "countCls k fileList < 2 ^ 64" by simp
  then have useen: "unat (seenOf k counted) = countCls k fileList"
    by (simp add: seen unat_of_nat)
  from placeAll_counts[OF k, of "osFor w" srcDir destDir "map snd (rangeOrder w uniqueFiles)"
      "\<lparr>cnt = counted, dateCounters = (\<lambda>d. 0), ledgers = ledgers0 w, copies = []\<rparr>"]
  have s0: "seenOf k (cnt st0) = seenOf k counted"
    and c0: "unat (copiedOf k (cnt st0)) \<le> recCls k (map snd (rangeOrder w uniqueFiles))"
    by (simp_all add: st0 cop0)
  have "mset (map snd (rangeOrder w uniqueFiles)) = mset (map snd uniqueFiles)"
    using rng by (metis mset_map)
  then have "recCls k (map snd (rangeOrder w uniqueFiles)) = recCls k (map snd uniqueFiles)"
    by (rule recCls_mset)
  also have "\<dots> \<le> recCls k (arrival w resultChan)"
    by (rule filterUniqueFiles_count[OF fu])
  also have "\<dots> = recCls k resultChan"
    using arr by (intro recCls_mset) simp
  finally have "unat (copiedOf k (cnt st0)) \<le> unat (seenOf k (cnt st0))"
    using c0 recs useen s0 by simp
  moreover have "copiedOf k (cnt st) = copiedOf k (cnt st0)" "seenOf k (cnt st) = seenOf k (cnt st0)"
    by (cases k; simp add: st seenOf_def copiedOf_def)+
  ultimately show ?thesis by simp
qed

lemma ProcessFiles_duplicates:
  assumes "ProcessFiles w srcDir destDir numWorkers = Inr (Finished st)"
  shows "imageDuplicates (cnt st) = imageCount (cnt st) - imageCopied (cnt st)"
    and "rawDuplicates (cnt st) = rawCount (cnt st) - rawCopied (cnt st)"
    and "videoDuplicates (cnt st) = videoCount (cnt st) - videoCopied (cnt st)"
  using assms by (auto elim!: ProcessFiles_Finished)

lemma no_underflow:
  fixes seen copied :: uint64
  assumes "unat copied \<le> unat seen"
  shows "unat (seen - copied) + unat copied = unat seen"
proof -
  from assms have "copied \<le> seen" by (simp add: word_le_nat_alt)
  then have "unat (seen - copied) = unat seen - unat copied" by (rule unat_sub)
  with assms show ?thesis by simp
qed

text \<open>
  Claim C5. A run over an empty file list returns before any counter exists and prints no
  summary. In every run that prints one, for each of the three classes the duplicates are
  the files seen minus the files copied, the files copied are at most the files seen, and
  the subtraction does not wrap around: duplicates plus copied is seen, as numbers. The
  schedulers only permute, and the file list is a Go slice (shorter than \<open>2 ^ 63\<close>).
\<close>

theorem summary_counters:
  "(walk w srcDir = Inr [] \<longrightarrow> ProcessFiles w srcDir destDir numWorkers = Inr NoFiles)
   \<and> (ProcessFiles w srcDir destDir numWorkers = Inr (Finished st)
       \<and> (\<forall>rs. mset (arrival w rs) = mset rs) \<and> (\<forall>u. mset (rangeOrder w u) = mset u)
       \<and> (\<forall>l. walk w srcDir = Inr l \<longrightarrow> length l < 2 ^ 63)
      \<longrightarrow> imageDuplicates (cnt st) = imageCount (cnt st) - imageCopied (cnt st)
          \<and> unat (imageCopied (cnt st)) \<le> unat (imageCount (cnt st))
          \<and> unat (imageDuplicates (cnt st)) + unat (imageCopied (cnt st)) = unat (imageCount (cnt st))
          \<and> rawDuplicates (cnt st) = rawCount (cnt st) - rawCopied (cnt st)
          \<and> unat (rawCopied (cnt st)) \<le> unat (rawCount (cnt st))
          \<and> unat (rawDuplicates (cnt st)) + unat (rawCopied (cnt st)) = unat (rawCount (cnt st))
          \<and> videoDuplicates (cnt st) = videoCount (cnt st) - videoCopied (cnt st)
          \<and> unat (videoCopied (cnt st)) \<le> unat (videoCount (cnt st))
          \<and> unat (videoDuplicates (cnt st)) + unat (videoCopied (cnt st)) = unat (videoCount (cnt st)))"
proof (intro conjI impI)
  assume "walk w srcDir = Inr []"
  then show "ProcessFiles w srcDir destDir numWorkers = Inr NoFiles"
    by (simp add: ProcessFiles_def)
next
  assume a: "ProcessFiles w srcDir destDir numWorkers = Inr (Finished st)
       \<and> (\<forall>rs. mset (arrival w rs) = mset rs) \<and> (\<forall>u. mset (rangeOrder w u) = mset u)
       \<and> (\<forall>l. walk w srcDir = Inr l \<longrightarrow> length l < 2 ^ 63)"
  then have run: "ProcessFiles w srcDir destDir numWorkers = Inr (Finished st)" by simp
  have le: "unat (copiedOf k (cnt st)) \<le> unat (seenOf k (cnt st))" if "k \<noteq> Unsupported" for k
    using class_counts[of w srcDir destDir numWorkers st k] a that by blast
  show i: "unat (imageCopied (cnt st)) \<le> unat (imageCount (cnt st))"
    using le[of Image] by (simp add: seenOf_def copiedOf_def)
  show r: "unat (rawCopied (cnt st)) \<le> unat (rawCount (cnt st))"
    using le[of Raw] by (simp add: seenOf_def copiedOf_def)
  show v: "unat (videoCopied (cnt st)) \<le> unat (videoCount (cnt st))"
    using le[of Video] by (simp add: seenOf_def copiedOf_def)
  show "imageDuplicates (cnt st) = imageCount (cnt st) - imageCopied (cnt st)"
    "rawDuplicates (cnt st) = rawCount (cnt st) - rawCopied (cnt st)"
    "videoDuplicates (cnt st) = videoCount (cnt st) - videoCopied (cnt st)"
    using ProcessFiles_duplicates[OF run] by auto
  then show "unat (imageDuplicates (cnt st)) + unat (imageCopied (cnt st)) = unat (imageCount (cnt st))"
    "unat (rawDuplicates (cnt st)) + unat (rawCopied (cnt st)) = unat (rawCount (cnt st))"
    "unat (videoDuplicates (cnt st)) + unat (videoCopied (cnt st)) = unat (videoCount (cnt st))"
    using no_underflow[OF i] no_underflow[OF r] no_underflow[OF v] by auto
qed

theorem summary_counters_witness:
  "\<exists>st. ProcessFiles copyFails ''/s'' ''/d'' 4 = Inr (Finished st)
     \<and> videoCount (cnt st) = 2 \<and> videoCopied (cnt st) = 1 \<and> videoDuplicates (cnt st) = 1
     \<and> unat (videoCopied (cnt st)) \<le> unat (videoCount (cnt st))
     \<and> unat (videoDuplicates (cnt st)) + unat (videoCopied (cnt st)) = unat (videoCount (cnt st))
     \<and> ProcessFiles copyFails ''/empty'' ''/d'' 4 = Inr NoFiles"
proof -
  from copyFails_run obtain st where run: "ProcessFiles copyFails ''/s'' ''/d'' 4 = Inr (Finished st)"
    and v: "videoCount (cnt st) = 2" "videoCopied (cnt st) = 1" "videoDuplicates (cnt st) = 1"
    by blast
  have h: "ProcessFiles copyFails ''/s'' ''/d'' 4 = Inr (Finished st)
       \<and> (\<forall>rs. mset (arrival copyFails rs) = mset rs) \<and> (\<forall>u. mset (rangeOrder copyFails u) = mset u)
       \<and> (\<forall>l. walk copyFails ''/s'' = Inr l \<longrightarrow> length l < 2 ^ 63)"
    using run by (simp add: copyFails_def)
  have e: "walk copyFails ''/empty'' = Inr []" by (simp add: copyFails_def)
  from summary_counters[of copyFails "''/s''" "''/d''" 4 st, THEN conjunct2, rule_format, OF h]
  have le: "unat (videoCopied (cnt st)) \<le> unat (videoCount (cnt st))"
    and sum: "unat (videoDuplicates (cnt st)) + unat (videoCopied (cnt st)) = unat (videoCount (cnt st))"
    by blast+
  from summary_counters[of copyFails "''/empty''" "''/d''" 4, THEN conjunct1, rule_format, OF e]
  have none: "ProcessFiles copyFails ''/empty'' ''/d'' 4 = Inr NoFiles" .
  show ?thesis using run v le sum none by (intro exI[of _ st] conjI)
qed

subsection \<open>Destination names\<close>

lemma run_invariants:
  assumes "ProcessFiles w srcDir destDir numWorkers = Inr (Finished st)"
  shows "allocInv st" and "\<forall>c\<in>set (copies st). \<exists>k. newName c = zeroPad 3 k @ Ext (srcFile c)"
proof -
  from assms obtain uniqueFiles counted st0 where
    st0: "st0 = placeAll (osFor w) srcDir destDir (map snd (rangeOrder w uniqueFiles))
             \<lparr>cnt = counted, dateCounters = (\<lambda>d. 0), ledgers = ledgers0 w, copies = []\<rparr>"
    and st: "st = st0\<lparr>cnt := (cnt st0)\<lparr>imageDuplicates := imageCount (cnt st0) - imageCopied (cnt st0),
                                rawDuplicates := rawCount (cnt st0) - rawCopied (cnt st0),
                                videoDuplicates := videoCount (cnt st0) - videoCopied (cnt st0)\<rparr>\<rparr>"
    by (auto elim!: ProcessFiles_Finished)
  let ?init = "\<lparr>cnt = counted, dateCounters = (\<lambda>d. 0), ledgers = ledgers0 w, copies = []\<rparr>"
  have "allocInv ?init" by (simp add: allocInv_def allocatedIn_def numbered_def)
  then have "allocInv st0" unfolding st0 by (rule allocInv_placeAll)
  then show "allocInv st" by (simp add: st allocInv_def)
  have "nameInv ?init" by (simp add: nameInv_def)
  then have "nameInv st0" unfolding st0 by (rule nameInv_placeAll)
  then show "\<forall>c\<in>set (copies st). \<exists>k. newName c = zeroPad 3 k @ Ext (srcFile c)"
    by (simp add: st nameInv_def)
qed

text \<open>
  Claim C6, as stated: the names of the files placed into one date directory are 001,
  002, ... without gaps. It fails when a copy fails, since the counter is incremented
  before \<^verbatim>\<open>copyFile\<close> is called: here the only file placed is 002.
\<close>

theorem placed_names_gap:
  "\<exists>st. ProcessFiles copyFails ''/s'' ''/d'' 4 = Inr (Finished st)
     \<and> map newName (placedIn ''2020-05-17'' (copies st)) = [''002.mov'']
     \<and> \<not> numbered (placedIn ''2020-05-17'' (copies st))"
proof -
  from copyFails_run obtain st where run: "ProcessFiles copyFails ''/s'' ''/d'' 4 = Inr (Finished st)"
    and c: "copies st =
         [\<lparr>forDate = ''2020-05-17'', newName = ''001.mov'', srcFile = ''/s/a.mov'',
           dstFile = ''/d/2020-05-17/001.mov'', succeeded = False\<rparr>,
          \<lparr>forDate = ''2020-05-17'', newName = ''002.mov'', srcFile = ''/s/b.mov'',
           dstFile = ''/d/2020-05-17/002.mov'', succeeded = True\<rparr>]"
    by blast
  have "map newName (placedIn ''2020-05-17'' (copies st)) = [''002.mov'']"
    by (simp add: c placedIn_def allocatedIn_def)
  moreover have "\<not> numbered (placedIn ''2020-05-17'' (copies st))"
    by (simp add: c placedIn_def allocatedIn_def numbered_def zeroPad_eval Ext_def)
  ultimately show ?thesis using run by (intro exI[of _ st] conjI)
qed

text \<open>
  Claim C6, amended. The counter of a date directory is incremented once for every record
  for which a name is allocated there (the directory was created and the relative path
  computed), whether or not the copy then succeeds: at the end it is the number of such
  allocations, and the names allocated are 001, 002, ... in order, each with the extension
  of its source. The files placed are the allocations whose copy succeeded; when all of
  them succeed, the names placed are 001, 002, ... without gaps.
\<close>

theorem allocation_numbering:
  "ProcessFiles w srcDir destDir numWorkers = Inr (Finished st) \<longrightarrow>
     dateCounters st d = of_nat (length (allocatedIn d (copies st)))
     \<and> numbered (allocatedIn d (copies st))
     \<and> placedIn d (copies st) = filter succeeded (allocatedIn d (copies st))
     \<and> (list_all succeeded (allocatedIn d (copies st)) \<longrightarrow> numbered (placedIn d (copies st)))"
proof
  assume "ProcessFiles w srcDir destDir numWorkers = Inr (Finished st)"
  from run_invariants(1)[OF this]
  have a: "dateCounters st d = of_nat (length (allocatedIn d (copies st)))"
    and n: "numbered (allocatedIn d (copies st))"
    unfolding allocInv_def by auto
  have "list_all succeeded (allocatedIn d (copies st)) \<longrightarrow> placedIn d (copies st) = allocatedIn d (copies st)"
    by (simp add: placedIn_def list_all_iff)
  with a n show "dateCounters st d = of_nat (length (allocatedIn d (copies st)))
     \<and> numbered (allocatedIn d (copies st))
     \<and> placedIn d (copies st) = filter succeeded (allocatedIn d (copies st))
     \<and> (list_all succeeded (allocatedIn d (copies st)) \<longrightarrow> numbered (placedIn d (copies st)))"
    by (auto simp: placedIn_def)
qed

theorem allocation_numbering_witness:
  "(\<exists>st. ProcessFiles copyFails ''/s'' ''/d'' 4 = Inr (Finished st)
      \<and> map newName (allocatedIn ''2020-05-17'' (copies st)) = [''001.mov'', ''002.mov'']
      \<and> numbered (allocatedIn ''2020-05-17'' (copies st))
      \<and> dateCounters st ''2020-05-17'' = 2)
   \<and> (\<exists>st. ProcessFiles upperCase ''/s'' ''/d'' 4 = Inr (Finished st)
      \<and> map newName (placedIn ''2021-06-01'' (copies st)) = [''001.JPG'']
      \<and> numbered (placedIn ''2021-06-01'' (copies st)))"
proof (intro conjI)
  from copyFails_run obtain st where run: "ProcessFiles copyFails ''/s'' ''/d'' 4 = Inr (Finished st)"
    and c: "copies st =
         [\<lparr>forDate = ''2020-05-17'', newName = ''001.mov'', srcFile = ''/s/a.mov'',
           dstFile = ''/d/2020-05-17/001.mov'', succeeded = False\<rparr>,
          \<lparr>forDate = ''2020-05-17'', newName = ''002.mov'', srcFile = ''/s/b.mov'',
           dstFile = ''/d/2020-05-17/002.mov'', succeeded = True\<rparr>]"
    by blast
  have n: "map newName (allocatedIn ''2020-05-17'' (copies st)) = [''001.mov'', ''002.mov'']"
    by (simp add: c allocatedIn_def)
  from allocation_numbering[of copyFails "''/s''" "''/d''" 4 st "''2020-05-17''", rule_format, OF run]
  have "numbered (allocatedIn ''2020-05-17'' (copies st))"
    and "dateCounters st ''2020-05-17'' = of_nat (length (allocatedIn ''2020-05-17'' (copies st)))"
    by simp_all
  moreover have "length (allocatedIn ''2020-05-17'' (copies st)) = 2"
    by (simp add: c allocatedIn_def)
  ultimately have "numbered (allocatedIn ''2020-05-17'' (copies st))"
    and "dateCounters st ''2020-05-17'' = 2"
    by simp_all
  with run n show "\<exists>st. ProcessFiles copyFails ''/s'' ''/d'' 4 = Inr (Finished st)
      \<and> map newName (allocatedIn ''2020-05-17'' (copies st)) = [''001.mov'', ''002.mov'']
      \<and> numbered (allocatedIn ''2020-05-17'' (copies st))
      \<and> dateCounters st ''2020-05-17'' = 2"
    by (intro exI[of _ st] conjI)
next
  from upperCase_run obtain st where run: "ProcessFiles upperCase ''/s'' ''/d'' 4 = Inr (Finished st)"
    and c: "copies st =
         [\<lparr>forDate = ''2021-06-01'', newName = ''001.JPG'', srcFile = ''/s/IMG_20200101.JPG'',
           dstFile = ''/d/2021-06-01/001.JPG'', succeeded = True\<rparr>]"
    by blast
  have a: "list_all succeeded (allocatedIn ''2021-06-01'' (copies st))"
    by (simp add: c allocatedIn_def)
  have n: "map newName (placedIn ''2021-06-01'' (copies st)) = [''001.JPG'']"
    by (simp add: c placedIn_def allocatedIn_def)
  from allocation_numbering[of upperCase "''/s''" "''/d''" 4 st "''2021-06-01''", rule_format, OF run] a
  have "numbered (placedIn ''2021-06-01'' (copies st))" by blast
  with run n show "\<exists>st. ProcessFiles upperCase ''/s'' ''/d'' 4 = Inr (Finished st)
      \<and> map newName (placedIn ''2021-06-01'' (copies st)) = [''001.JPG'']
      \<and> numbered (placedIn ''2021-06-01'' (copies st))"
    by (intro exI[of _ st] conjI)
qed

text \<open>
  Claim C9. Every name allocated in a run is a number followed by \<^verbatim>\<open>filepath.Ext\<close> of the
  source path, which is a suffix of that path as it is written: the extension is not
  lowered, although the class is decided on the lowered extension.
\<close>

theorem extension_verbatim:
  "ProcessFiles w srcDir destDir numWorkers = Inr (Finished st) \<and> c \<in> set (copies st) \<longrightarrow>
     (\<exists>k. newName c = zeroPad 3 k @ Ext (srcFile c))
     \<and> (\<exists>pre. srcFile c = pre @ Ext (srcFile c))"
  using run_invariants(2) Ext_suffix by blast
theorem extension_verbatim_witness:
  "\<exists>st c. ProcessFiles upperCase ''/s'' ''/d'' 4 = Inr (Finished st)
      \<and> copies st = [c] \<and> srcFile c = ''/s/IMG_20200101.JPG'' \<and> newName c = ''001.JPG''
      \<and> Ext (srcFile c) = ''.JPG''
      \<and> classOf (srcFile c) = Image \<and> ToLower (Ext (srcFile c)) = ''.jpg''
      \<and> (\<exists>k. newName c = zeroPad 3 k @ Ext (srcFile c))
      \<and> (\<exists>pre. srcFile c = pre @ Ext (srcFile c))"
proof -
  let ?c = "\<lparr>forDate = ''2021-06-01'', newName = ''001.JPG'', srcFile = ''/s/IMG_20200101.JPG'',
           dstFile = ''/d/2021-06-01/001.JPG'', succeeded = True\<rparr>"
  from upperCase_run obtain st where run: "ProcessFiles upperCase ''/s'' ''/d'' 4 = Inr (Finished st)"
    and c: "copies st = [?c]"
    by blast
  have "ProcessFiles upperCase ''/s'' ''/d'' 4 = Inr (Finished st) \<and> ?c \<in> set (copies st)"
    using run c by simp
  from extension_verbatim[of upperCase "''/s''" "''/d''" 4 st ?c, rule_format, OF this]
  have "(\<exists>k. newName ?c = zeroPad 3 k @ Ext (srcFile ?c)) \<and> (\<exists>pre. srcFile ?c = pre @ Ext (srcFile ?c))" .
  moreover have "Ext (srcFile ?c) = ''.JPG''" "classOf (srcFile ?c) = Image" "ToLower (Ext (srcFile ?c)) = ''.jpg''"
    by (simp_all add: classEval)
  ultimately show ?thesis using run c by (intro exI[of _ st] exI[of _ ?c]) simp
qed

end
